theory Spec2Isabelle
  imports Main "HOL-Library.AList"
begin

section \<open>The request gatekeeper of server.js\<close>

text \<open>
  A shallow embedding of \<^verbatim>\<open>src/server.js\<close>: the resolver \<^verbatim>\<open>getRealIP\<close>, the ban list
  (\<^verbatim>\<open>loadBannedIPs\<close>, \<^verbatim>\<open>saveBannedIPs\<close>, \<^verbatim>\<open>banIP\<close>, the unban route), the admission
  middleware and the periodic cleanup.  The module's global variables and the ban file
  form one state record that every function takes and returns; the clock readings
  (\<^verbatim>\<open>Date.now()\<close>, \<^verbatim>\<open>new Date().toISOString()\<close>) are arguments.  Console output
  (and with it the alert at 80 percent of the limit) is not modelled, nor are the
  read-only routes and the signal handlers, which change none of the variables.
\<close>

subsection \<open>Configuration\<close>

definition REQUEST_LIMIT :: int where
  "REQUEST_LIMIT = 50"

definition TIME_WINDOW :: int where
  "TIME_WINDOW = 60000"

subsection \<open>JavaScript values\<close>

text \<open>
  Strings are lists of 8-bit characters: Node decodes header values as latin1, so every
  code unit of a header value or of a socket address is below 256.  A value that may be
  \<^verbatim>\<open>undefined\<close> is an option, \<open>None\<close> being \<^verbatim>\<open>undefined\<close>.

  \<open>json\<close> is what \<^verbatim>\<open>JSON.parse\<close> can return.  A number is finite or, for a literal
  beyond the range of a double such as \<^verbatim>\<open>1e999\<close>, one of the two infinities; the
  finite ones are kept as integers, since the program only ever asks whether a parsed
  number is zero.  An object lists its own properties.
\<close>

datatype number = Num int | Infinity | Minus_Infinity

datatype json =
    JNull
  | JBool bool
  | JNum number
  | JStr string
  | JArr "json list"
  | JObj "(string \<times> json) list"

type_synonym jsval = "json option"

datatype exn = SyntaxError | TypeError | IOError

text \<open>Truthiness, as \<^verbatim>\<open>if (v)\<close> and \<^verbatim>\<open>v || w\<close> test it.\<close>

fun truthy :: "jsval \<Rightarrow> bool" where
  "truthy None = False"
| "truthy (Some JNull) = False"
| "truthy (Some (JBool b)) = b"
| "truthy (Some (JNum n)) = (n \<noteq> Num 0)"
| "truthy (Some (JStr s)) = (s \<noteq> [])"
| "truthy (Some (JArr xs)) = True"
| "truthy (Some (JObj kvs)) = True"

text \<open>The same test on a value known to be a string or \<^verbatim>\<open>undefined\<close>.\<close>

fun truthy_str :: "string option \<Rightarrow> bool" where
  "truthy_str None = False"
| "truthy_str (Some s) = (s \<noteq> [])"

text \<open>\<^verbatim>\<open>a || b\<close> on such values.\<close>

definition or_str :: "string option \<Rightarrow> string option \<Rightarrow> string option" where
  "or_str a b = (if truthy_str a then a else b)"

text \<open>
  Arrays and objects are compared by reference in JavaScript, every other value by
  content (SameValueZero).  \<open>primitive\<close> marks the values compared by content.
\<close>

fun primitive :: "jsval \<Rightarrow> bool" where
  "primitive (Some (JArr xs)) = False"
| "primitive (Some (JObj kvs)) = False"
| "primitive v = True"

text \<open>An identity (\<^verbatim>\<open>ip\<close> in the source) is a string or \<^verbatim>\<open>undefined\<close>; as a value:\<close>

definition ident :: "string option \<Rightarrow> jsval" where
  "ident ip = map_option JStr ip"

subsection \<open>String.prototype.split and trim\<close>

text \<open>
  \<^verbatim>\<open>s.split(',')[0]\<close> is the text before the first comma (all of \<open>s\<close> when there is
  none).  \<^verbatim>\<open>trim\<close> removes white space and line terminators at both ends; below 256
  these are the code units 9 to 13, 32 and 160.
\<close>

definition split_comma_0 :: "string \<Rightarrow> string" where
  "split_comma_0 s = takeWhile (\<lambda>c. c \<noteq> CHR '','') s"

definition isWhiteSpace :: "char \<Rightarrow> bool" where
  "isWhiteSpace c \<longleftrightarrow> (of_char c :: nat) \<in> {9, 10, 11, 12, 13, 32, 160}"

definition trim :: "string \<Rightarrow> string" where
  "trim s = rev (dropWhile isWhiteSpace (rev (dropWhile isWhiteSpace s)))"

subsection \<open>getRealIP\<close>

text \<open>
  A request, as far as the gatekeeper reads it: the header table and the peer address
  seen through \<^verbatim>\<open>req.socket\<close> and through \<^verbatim>\<open>req.connection\<close>.
\<close>

record request =
  headers :: "string \<rightharpoonup> string"
  socket_remoteAddress :: "string option"
  connection_remoteAddress :: "string option"

definition getRealIP :: "request \<Rightarrow> string option" where
  "getRealIP req =
     (let forwarded = headers req ''x-forwarded-for'';
          realIP = headers req ''x-real-ip'';
          cfConnectingIP = headers req ''cf-connecting-ip''
      in if truthy_str cfConnectingIP then cfConnectingIP
         else if truthy_str realIP then realIP
         else if truthy_str forwarded
           then map_option (\<lambda>f. trim (split_comma_0 f)) forwarded
         else or_str (socket_remoteAddress req) (connection_remoteAddress req))"

subsection \<open>Set and Map\<close>

text \<open>
  \<^verbatim>\<open>bannedIPs\<close> is a JavaScript \<^verbatim>\<open>Set\<close>, \<^verbatim>\<open>requestTracker\<close> a \<^verbatim>\<open>Map\<close>.  Both keep
  insertion order, which \<^verbatim>\<open>Array.from\<close> and \<^verbatim>\<open>entries()\<close> expose, so they are lists:
  a set is the list of its members, a map the list of its entries.  \<open>Set_wf\<close> and
  distinct keys are the invariants the JavaScript containers keep by themselves.

  The program probes the set only with identities, which are compared by content.
\<close>

definition Set_wf :: "jsval list \<Rightarrow> bool" where
  "Set_wf S \<longleftrightarrow> distinct (filter primitive S)"

definition Set_has :: "string option \<Rightarrow> jsval list \<Rightarrow> bool" where
  "Set_has ip S \<longleftrightarrow> ident ip \<in> set S"

definition Set_add :: "string option \<Rightarrow> jsval list \<Rightarrow> jsval list" where
  "Set_add ip S = (if Set_has ip S then S else S @ [ident ip])"

definition Set_delete :: "string option \<Rightarrow> jsval list \<Rightarrow> jsval list" where
  "Set_delete ip S = removeAll (ident ip) S"

text \<open>
  \<^verbatim>\<open>new Set(iterable)\<close> adds the elements one by one.  Of the elements of an array
  that \<^verbatim>\<open>JSON.parse\<close> built, every array and object is a reference of its own and is
  always added; a primitive value is added unless it is there already.
\<close>

fun Set_add_all :: "jsval list \<Rightarrow> jsval list \<Rightarrow> jsval list" where
  "Set_add_all S [] = S"
| "Set_add_all S (x # xs) =
     Set_add_all (if primitive x \<and> x \<in> set S then S else S @ [x]) xs"

text \<open>
  The elements \<^verbatim>\<open>new Set(v)\<close> iterates over: the characters of a string, the elements
  of an array, nothing for \<^verbatim>\<open>null\<close>; any other value is not iterable and the
  constructor throws.
\<close>

fun iterate :: "json \<Rightarrow> exn + jsval list" where
  "iterate JNull = Inr []"
| "iterate (JStr s) = Inr (map (\<lambda>c. Some (JStr [c])) s)"
| "iterate (JArr xs) = Inr (map Some xs)"
| "iterate v = Inl TypeError"

definition new_Set :: "json \<Rightarrow> exn + jsval list" where
  "new_Set v = (case iterate v of Inl e \<Rightarrow> Inl e | Inr xs \<Rightarrow> Inr (Set_add_all [] xs))"

subsection \<open>State\<close>

text \<open>
  An entry of \<^verbatim>\<open>requestTracker\<close>.  The count and the clock readings (milliseconds, as
  \<^verbatim>\<open>Date.now()\<close> gives them) are JavaScript numbers that hold integers; \<^verbatim>\<open>count++\<close>
  and the subtraction of two readings are exact on them.
\<close>

record tracker =
  count :: int
  firstRequest :: int
  lastRequest :: int

text \<open>
  The file \<^verbatim>\<open>banned_ips.json\<close>.  Its text is represented by what \<^verbatim>\<open>JSON.parse\<close> makes
  of it: \<open>Garbled\<close> when it throws, \<open>Encodes v\<close> when it returns \<open>v\<close>.  A file that
  exists but cannot be read is \<open>Unreadable\<close>.
\<close>

datatype file_text = Garbled | Encodes json

datatype file_state = Missing | Unreadable | Holds file_text

text \<open>
  \<open>writable\<close> says whether \<^verbatim>\<open>fs.writeFileSync\<close> succeeds; \<open>writes\<close> counts the calls
  of \<^verbatim>\<open>fs.writeFileSync\<close> (it is not a variable of the program).
\<close>

record state =
  requestTracker :: "(string option \<times> tracker) list"
  bannedIPs :: "jsval list"
  banned_ips_file :: file_state
  writable :: bool
  writes :: nat

text \<open>The globals as the module declares them, beside a ban file \<open>f\<close>.\<close>

definition initial :: "file_state \<Rightarrow> bool \<Rightarrow> state" where
  "initial f w =
     \<lparr>requestTracker = [], bannedIPs = [], banned_ips_file = f, writable = w, writes = 0\<rparr>"

subsection \<open>saveBannedIPs and loadBannedIPs\<close>

text \<open>
  The object \<^verbatim>\<open>data\<close> as \<^verbatim>\<open>JSON.parse\<close> reads it back from
  \<^verbatim>\<open>JSON.stringify(data, null, 2)\<close>.  \<^verbatim>\<open>JSON.stringify\<close> writes an infinite number,
  at any depth, as \<^verbatim>\<open>null\<close> (\<open>stringify_parse\<close>), an \<^verbatim>\<open>undefined\<close> array element as
  \<^verbatim>\<open>null\<close>, and every other value as itself.  \<open>stamp\<close> is
  \<^verbatim>\<open>new Date().toISOString()\<close>.
\<close>

fun stringify_parse :: "json \<Rightarrow> json" where
  "stringify_parse (JNum (Num i)) = JNum (Num i)"
| "stringify_parse (JNum Infinity) = JNull"
| "stringify_parse (JNum Minus_Infinity) = JNull"
| "stringify_parse (JArr xs) = JArr (map stringify_parse xs)"
| "stringify_parse (JObj kvs) = JObj (map (\<lambda>(k, v). (k, stringify_parse v)) kvs)"
| "stringify_parse JNull = JNull"
| "stringify_parse (JBool b) = JBool b"
| "stringify_parse (JStr s) = JStr s"

definition stringify_element :: "jsval \<Rightarrow> json" where
  "stringify_element x = (case x of None \<Rightarrow> JNull | Some v \<Rightarrow> stringify_parse v)"

definition data :: "string \<Rightarrow> jsval list \<Rightarrow> json" where
  "data stamp S =
     JObj [(''ips'', JArr (map stringify_element S)),
           (''lastUpdated'', JStr stamp),
           (''totalBanned'', JNum (Num (int (length S))))]"

text \<open>
  A failing \<^verbatim>\<open>fs.writeFileSync\<close> throws, \<^verbatim>\<open>saveBannedIPs\<close> catches it, and the file
  is taken to stay as it was.  Nothing else in the function can throw.
\<close>

definition saveBannedIPs :: "string \<Rightarrow> state \<Rightarrow> state" where
  "saveBannedIPs stamp s =
     s\<lparr>banned_ips_file :=
          (if writable s then Holds (Encodes (data stamp (bannedIPs s)))
           else banned_ips_file s),
       writes := Suc (writes s)\<rparr>"

text \<open>\<^verbatim>\<open>banned.ips\<close>: reading a property of \<^verbatim>\<open>null\<close> throws, a missing one is \<^verbatim>\<open>undefined\<close>.\<close>

fun get_ips :: "json \<Rightarrow> exn + jsval" where
  "get_ips JNull = Inl TypeError"
| "get_ips (JObj kvs) = Inr (map_of kvs ''ips'')"
| "get_ips v = Inr None"

text \<open>\<^verbatim>\<open>v || []\<close>\<close>

definition or_empty :: "jsval \<Rightarrow> json" where
  "or_empty v = (case v of None \<Rightarrow> JArr [] | Some j \<Rightarrow> if truthy (Some j) then j else JArr [])"

text \<open>The body of the \<^verbatim>\<open>try\<close> block of \<^verbatim>\<open>loadBannedIPs\<close>; \<open>Inl\<close> is a thrown exception.\<close>

definition loadBannedIPs_try :: "string \<Rightarrow> state \<Rightarrow> exn + state" where
  "loadBannedIPs_try stamp s =
     (case banned_ips_file s of
        Missing \<Rightarrow> Inr (saveBannedIPs stamp s)
      | Unreadable \<Rightarrow> Inl IOError
      | Holds Garbled \<Rightarrow> Inl SyntaxError
      | Holds (Encodes banned) \<Rightarrow>
          (case get_ips banned of
             Inl e \<Rightarrow> Inl e
           | Inr ips \<Rightarrow>
               (case new_Set (or_empty ips) of
                  Inl e \<Rightarrow> Inl e
                | Inr S \<Rightarrow> Inr (s\<lparr>bannedIPs := S\<rparr>))))"

definition loadBannedIPs :: "string \<Rightarrow> state \<Rightarrow> state" where
  "loadBannedIPs stamp s =
     (case loadBannedIPs_try stamp s of
        Inl error \<Rightarrow> s\<lparr>bannedIPs := []\<rparr>
      | Inr s' \<Rightarrow> s')"

text \<open>The module's last statements: with the globals as declared, load the ban list.\<close>

definition startup :: "string \<Rightarrow> file_state \<Rightarrow> bool \<Rightarrow> state" where
  "startup stamp f w = loadBannedIPs stamp (initial f w)"

subsection \<open>banIP and the unban route\<close>

definition banIP :: "string \<Rightarrow> string option \<Rightarrow> state \<Rightarrow> state" where
  "banIP stamp ip s =
     (if \<not> Set_has ip (bannedIPs s)
      then saveBannedIPs stamp (s\<lparr>bannedIPs := Set_add ip (bannedIPs s)\<rparr>)
      else s)"

text \<open>
  The handler of \<^verbatim>\<open>/admin/unban/:ip\<close>; the result is the \<^verbatim>\<open>success\<close> field of its
  response.  A route parameter is a string.
\<close>

definition unban :: "string \<Rightarrow> string \<Rightarrow> state \<Rightarrow> bool \<times> state" where
  "unban stamp ipToUnban s =
     (if Set_has (Some ipToUnban) (bannedIPs s)
      then (True, saveBannedIPs stamp (s\<lparr>bannedIPs := Set_delete (Some ipToUnban) (bannedIPs s)\<rparr>))
      else (False, s))"

subsection \<open>The admission middleware\<close>

text \<open>
  \<open>Blocked\<close>: the socket is destroyed because the identity is banned already;
  \<open>Banned_now\<close>: the identity is banned by this request and the socket destroyed;
  \<open>Next\<close>: \<^verbatim>\<open>next()\<close> is called.
\<close>

datatype outcome = Blocked | Banned_now | Next

text \<open>The update of an existing entry (the window test, the counter, \<^verbatim>\<open>lastRequest\<close>).\<close>

definition track :: "int \<Rightarrow> tracker \<Rightarrow> tracker" where
  "track now tracker =
     (if now - firstRequest tracker > TIME_WINDOW
      then tracker\<lparr>count := 1, firstRequest := now\<rparr>
      else tracker\<lparr>count := count tracker + 1\<rparr>)
     \<lparr>lastRequest := now\<rparr>"

definition middleware :: "request \<Rightarrow> int \<Rightarrow> string \<Rightarrow> state \<Rightarrow> outcome \<times> state" where
  "middleware req now stamp s =
     (let ip = getRealIP req in
      if Set_has ip (bannedIPs s) then (Blocked, s)
      else case map_of (requestTracker s) ip of
        None \<Rightarrow>
          (Next, s\<lparr>requestTracker :=
                     AList.update ip \<lparr>count = 1, firstRequest = now, lastRequest = now\<rparr>
                       (requestTracker s)\<rparr>)
      | Some tracker \<Rightarrow>
          (let tracker' = track now tracker;
               s' = s\<lparr>requestTracker := AList.update ip tracker' (requestTracker s)\<rparr>
           in if count tracker' > REQUEST_LIMIT
              then (Banned_now, banIP stamp ip s')
              else (Next, s')))"

subsection \<open>The periodic cleanup\<close>

text \<open>
  The \<^verbatim>\<open>for\<close> loop over \<^verbatim>\<open>requestTracker.entries()\<close>: the first argument is the
  entries still to visit, the last the map as it stands.  Deleting the entry being
  visited does not disturb the iteration over the others.
\<close>

fun cleanup_loop ::
  "(string option \<times> tracker) list \<Rightarrow> int \<Rightarrow> jsval list \<Rightarrow>
   (string option \<times> tracker) list \<Rightarrow> (string option \<times> tracker) list" where
  "cleanup_loop [] now banned m = m"
| "cleanup_loop ((ip, tracker) # rest) now banned m =
     cleanup_loop rest now banned
       (if now - lastRequest tracker > 300000 \<and> \<not> Set_has ip banned
        then AList.delete ip m else m)"

definition cleanup :: "int \<Rightarrow> state \<Rightarrow> state" where
  "cleanup now s =
     s\<lparr>requestTracker :=
         cleanup_loop (requestTracker s) now (bannedIPs s) (requestTracker s)\<rparr>"

subsection \<open>Runs of the server\<close>

text \<open>
  What happens to the state after startup: a request to any route goes through the
  middleware (the routes other than the unban route change nothing), a request to
  \<^verbatim>\<open>/admin/unban/:ip\<close> reaches its handler when the middleware calls \<^verbatim>\<open>next()\<close>, and
  the timer runs the cleanup.
\<close>

datatype event =
    Request request int string
  | Unban_request request int string string
  | Cleanup int

fun step :: "event \<Rightarrow> state \<Rightarrow> outcome option \<times> state" where
  "step (Request req now stamp) s =
     (case middleware req now stamp s of (out, s') \<Rightarrow> (Some out, s'))"
| "step (Unban_request req now stamp ipToUnban) s =
     (case middleware req now stamp s of
        (Next, s') \<Rightarrow> (Some Next, snd (unban stamp ipToUnban s'))
      | (out, s') \<Rightarrow> (Some out, s'))"
| "step (Cleanup now) s = (None, cleanup now s)"

fun run :: "event list \<Rightarrow> state \<Rightarrow> outcome option list \<times> state" where
  "run [] s = ([], s)"
| "run (e # es) s =
     (case step e s of (out, s') \<Rightarrow>
        (case run es s' of (outs, s'') \<Rightarrow> (out # outs, s'')))"

subsection \<open>Vocabulary of the statements\<close>

text \<open>
  \<open>in_window ip t0 e\<close>: the event is a plain request of identity \<open>ip\<close> whose clock reading
  is at most \<open>TIME_WINDOW\<close> after \<open>t0\<close>.
\<close>

fun in_window :: "string option \<Rightarrow> int \<Rightarrow> event \<Rightarrow> bool" where
  "in_window ip t0 (Request req now stamp) = (getRealIP req = ip \<and> now - t0 \<le> TIME_WINDOW)"
| "in_window ip t0 e = False"

text \<open>
  \<open>unbans x e\<close>: the event is a request to the unban route naming \<open>x\<close>.
  \<open>sent_by x e\<close>: the event is a request whose identity is \<open>x\<close>.
\<close>

fun unbans :: "string option \<Rightarrow> event \<Rightarrow> bool" where
  "unbans x (Unban_request req now stamp ipToUnban) = (x = Some ipToUnban)"
| "unbans x e = False"

fun sent_by :: "string option \<Rightarrow> event \<Rightarrow> bool" where
  "sent_by x (Request req now stamp) = (getRealIP req = x)"
| "sent_by x (Unban_request req now stamp ipToUnban) = (getRealIP req = x)"
| "sent_by x (Cleanup now) = False"

text \<open>
  \<open>containers_wf s\<close>: the two containers are what a JavaScript \<^verbatim>\<open>Map\<close> and \<^verbatim>\<open>Set\<close> can
  be: no key twice, no primitive member twice.
\<close>

definition containers_wf :: "state \<Rightarrow> bool" where
  "containers_wf s \<longleftrightarrow> distinct (map fst (requestTracker s)) \<and> Set_wf (bannedIPs s)"

text \<open>\<open>is_string x\<close>: the member of the ban set is a string, as an identity is.\<close>

fun is_string :: "jsval \<Rightarrow> bool" where
  "is_string (Some (JStr s)) = True"
| "is_string x = False"

text \<open>
  \<open>carries_ips v\<close>: the parsed value is an object whose \<^verbatim>\<open>ips\<close> is a non-empty array or a
  non-empty string, the two kinds of value from which \<^verbatim>\<open>new Set\<close> takes members.
\<close>

fun carries_ips :: "json \<Rightarrow> bool" where
  "carries_ips (JObj kvs) =
     (case map_of kvs ''ips'' of
        Some (JStr s) \<Rightarrow> s \<noteq> []
      | Some (JArr xs) \<Rightarrow> xs \<noteq> []
      | _ \<Rightarrow> False)"
| "carries_ips v = False"

section \<open>Basic facts\<close>

lemma saveBannedIPs_fields [simp]:
  "requestTracker (saveBannedIPs stamp s) = requestTracker s"
  "bannedIPs (saveBannedIPs stamp s) = bannedIPs s"
  "writable (saveBannedIPs stamp s) = writable s"
  "writes (saveBannedIPs stamp s) = Suc (writes s)"
  by (simp_all add: saveBannedIPs_def)

lemma banIP_requestTracker [simp]: "requestTracker (banIP stamp ip s) = requestTracker s"
  by (simp add: banIP_def)

lemma banIP_has [simp]: "Set_has ip (bannedIPs (banIP stamp ip s))"
  by (simp add: banIP_def Set_add_def Set_has_def)

lemma banIP_keeps: "Set_has x (bannedIPs s) \<Longrightarrow> Set_has x (bannedIPs (banIP stamp ip s))"
  by (simp add: banIP_def Set_add_def Set_has_def)

lemma middleware_banned:
  "Set_has (getRealIP req) (bannedIPs s) \<Longrightarrow> middleware req now stamp s = (Blocked, s)"
  by (simp add: middleware_def)

lemma middleware_new:
  "\<not> Set_has (getRealIP req) (bannedIPs s) \<Longrightarrow> map_of (requestTracker s) (getRealIP req) = None \<Longrightarrow>
   middleware req now stamp s =
     (Next, s\<lparr>requestTracker :=
               AList.update (getRealIP req) \<lparr>count = 1, firstRequest = now, lastRequest = now\<rparr>
                 (requestTracker s)\<rparr>)"
  by (simp add: middleware_def)

lemma middleware_known:
  "\<not> Set_has (getRealIP req) (bannedIPs s) \<Longrightarrow> map_of (requestTracker s) (getRealIP req) = Some t \<Longrightarrow>
   middleware req now stamp s =
     (if count (track now t) > REQUEST_LIMIT
      then (Banned_now,
            banIP stamp (getRealIP req)
              (s\<lparr>requestTracker := AList.update (getRealIP req) (track now t) (requestTracker s)\<rparr>))
      else (Next, s\<lparr>requestTracker := AList.update (getRealIP req) (track now t) (requestTracker s)\<rparr>))"
  by (simp add: middleware_def Let_def)

lemma middleware_entry:
  "\<not> Set_has (getRealIP req) (bannedIPs s) \<Longrightarrow>
   map_of (requestTracker (snd (middleware req now stamp s))) (getRealIP req) =
     Some (case map_of (requestTracker s) (getRealIP req) of
             None \<Rightarrow> \<lparr>count = 1, firstRequest = now, lastRequest = now\<rparr>
           | Some t \<Rightarrow> track now t)"
  by (cases "map_of (requestTracker s) (getRealIP req)")
     (simp_all add: middleware_new middleware_known update_conv')

lemma run_append:
  "run (xs @ ys) s =
     (case run xs s of (o1, s1) \<Rightarrow> (case run ys s1 of (o2, s2) \<Rightarrow> (o1 @ o2, s2)))"
  by (induction xs arbitrary: s) (auto split: prod.splits)

lemma track_in_window:
  "now - firstRequest t \<le> TIME_WINDOW \<Longrightarrow>
   track now t = \<lparr>count = count t + 1, firstRequest = firstRequest t, lastRequest = now\<rparr>"
  by (simp add: track_def)

lemma burst_admitted:
  assumes "map_of (requestTracker s) ip = Some t" "\<not> Set_has ip (bannedIPs s)"
    "\<forall>e \<in> set es. in_window ip (firstRequest t) e"
    "count t + int (length es) \<le> REQUEST_LIMIT"
  shows "\<exists>s' t'. run es s = (replicate (length es) (Some Next), s') \<and>
           map_of (requestTracker s') ip = Some t' \<and>
           count t' = count t + int (length es) \<and> firstRequest t' = firstRequest t \<and>
           bannedIPs s' = bannedIPs s"
  using assms
proof (induction es arbitrary: s t)
  case Nil
  then show ?case by simp
next
  case (Cons e es)
  from Cons.prems(3) obtain req now stamp where
    e: "e = Request req now stamp" "getRealIP req = ip" "now - firstRequest t \<le> TIME_WINDOW"
    by (cases e) auto
  let ?t = "\<lparr>count = count t + 1, firstRequest = firstRequest t, lastRequest = now\<rparr>"
  let ?s = "s\<lparr>requestTracker := AList.update ip ?t (requestTracker s)\<rparr>"
  from Cons.prems(4) have "\<not> count t + 1 > REQUEST_LIMIT" by simp
  with e Cons.prems(1,2) have m: "middleware req now stamp s = (Next, ?s)"
    by (simp add: middleware_known track_in_window)
  have "\<exists>s' t'. run es ?s = (replicate (length es) (Some Next), s') \<and>
           map_of (requestTracker s') ip = Some t' \<and>
           count t' = count ?t + int (length es) \<and> firstRequest t' = firstRequest ?t \<and>
           bannedIPs s' = bannedIPs ?s"
  proof (rule Cons.IH)
    show "map_of (requestTracker ?s) ip = Some ?t" by (simp add: update_conv')
    show "\<not> Set_has ip (bannedIPs ?s)" using Cons.prems(2) by simp
    show "\<forall>e\<in>set es. in_window ip (firstRequest ?t) e" using Cons.prems(3) by simp
    show "count ?t + int (length es) \<le> REQUEST_LIMIT" using Cons.prems(4) by simp
  qed
  then obtain s' t' where r: "run es ?s = (replicate (length es) (Some Next), s')"
    "map_of (requestTracker s') ip = Some t'"
    "count t' = count ?t + int (length es)" "firstRequest t' = firstRequest ?t"
    "bannedIPs s' = bannedIPs ?s" by blast
  from e(1) m r(1) have "run (e # es) s = (replicate (length (e # es)) (Some Next), s')" by simp
  moreover from r(3) have "count t' = count t + int (length (e # es))" by simp
  moreover from r(4) have "firstRequest t' = firstRequest t" by simp
  moreover from r(5) have "bannedIPs s' = bannedIPs s" by simp
  ultimately show ?case using r(2) by blast
qed

lemma split_comma_0_rest:
  "dropWhile (\<lambda>c. c \<noteq> CHR '','') f = [] \<or> hd (dropWhile (\<lambda>c. c \<noteq> CHR '','') f) = CHR '',''"
  using hd_dropWhile [of "\<lambda>c. c \<noteq> CHR '',''" f] by auto

lemma split_comma_0_no_comma: "CHR '','' \<notin> set (split_comma_0 f)"
  unfolding split_comma_0_def by (induction f) auto

lemma rev_dropWhile_takeWhile:
  "xs = rev (dropWhile P (rev xs)) @ rev (takeWhile P (rev xs))"
proof -
  have "rev (takeWhile P (rev xs) @ dropWhile P (rev xs)) = xs" by simp
  from this [unfolded rev_append] show ?thesis by (rule sym)
qed

lemma trim_suffix:
  "dropWhile isWhiteSpace s =
     trim s @ rev (takeWhile isWhiteSpace (rev (dropWhile isWhiteSpace s)))"
  unfolding trim_def by (rule rev_dropWhile_takeWhile)

lemma all_takeWhile: "list_all P (takeWhile P xs)"
  by (induction xs) auto

lemma trim_decomposition:
  "\<exists>ws1 ws2. s = ws1 @ trim s @ ws2 \<and> list_all isWhiteSpace ws1 \<and> list_all isWhiteSpace ws2"
proof -
  let ?d = "dropWhile isWhiteSpace s"
  let ?w = "rev (takeWhile isWhiteSpace (rev ?d))"
  have "s = takeWhile isWhiteSpace s @ ?d" by simp
  also have "?d = trim s @ ?w" by (rule trim_suffix)
  finally have "s = takeWhile isWhiteSpace s @ trim s @ ?w" .
  moreover have "list_all isWhiteSpace (takeWhile isWhiteSpace s)" by (rule all_takeWhile)
  moreover have "list_all isWhiteSpace ?w" by (simp add: all_takeWhile)
  ultimately show ?thesis by blast
qed

lemma trim_ends:
  assumes "trim s \<noteq> []"
  shows "\<not> isWhiteSpace (hd (trim s)) \<and> \<not> isWhiteSpace (last (trim s))"
proof
  let ?d = "dropWhile isWhiteSpace s"
  let ?r = "dropWhile isWhiteSpace (rev ?d)"
  from assms have r: "?r \<noteq> []" by (simp add: trim_def)
  then have "\<not> isWhiteSpace (hd ?r)" by (rule hd_dropWhile)
  moreover from r have "last (trim s) = hd ?r" by (simp add: trim_def last_rev)
  ultimately show "\<not> isWhiteSpace (last (trim s))" by simp
  have "hd ?d = hd (trim s @ rev (takeWhile isWhiteSpace (rev ?d)))"
    using trim_suffix [of s] by simp
  with assms have h: "hd ?d = hd (trim s)" by simp
  have "?d \<noteq> []"
  proof
    assume "?d = []"
    then have "trim s = []" by (simp only: trim_def rev.simps dropWhile.simps)
    with assms show False by simp
  qed
  then have "\<not> isWhiteSpace (hd ?d)" by (rule hd_dropWhile)
  with h show "\<not> isWhiteSpace (hd (trim s))" by simp
qed

lemma ident_eq [simp]: "ident x = ident y \<longleftrightarrow> x = y"
  by (cases x; cases y) (simp_all add: ident_def)

lemma unban_requestTracker [simp]: "requestTracker (snd (unban stamp x s)) = requestTracker s"
  by (simp add: unban_def)

lemma unban_keeps:
  "Set_has x (bannedIPs s) \<Longrightarrow> x \<noteq> Some y \<Longrightarrow> Set_has x (bannedIPs (snd (unban stamp y s)))"
  by (simp add: unban_def Set_has_def Set_delete_def)

lemma middleware_other:
  assumes "Set_has x (bannedIPs s)"
  shows "Set_has x (bannedIPs (snd (middleware req now stamp s))) \<and>
         map_of (requestTracker (snd (middleware req now stamp s))) x = map_of (requestTracker s) x"
proof (cases "Set_has (getRealIP req) (bannedIPs s)")
  case True
  with assms show ?thesis by (simp add: middleware_banned)
next
  case False
  with assms have ne: "getRealIP req \<noteq> x" by auto
  show ?thesis
  proof (cases "map_of (requestTracker s) (getRealIP req)")
    case None
    with False ne assms show ?thesis by (simp add: middleware_new update_conv')
  next
    case (Some t)
    with False ne assms show ?thesis by (simp add: middleware_known update_conv' banIP_keeps)
  qed
qed

lemma cleanup_loop_banned:
  "Set_has x banned \<Longrightarrow> map_of (cleanup_loop es now banned m) x = map_of m x"
proof (induction es arbitrary: m)
  case Nil
  then show ?case by simp
next
  case (Cons e es)
  obtain ip t where e: "e = (ip, t)" by (cases e)
  show ?case
  proof (cases "now - lastRequest t > 300000 \<and> \<not> Set_has ip banned")
    case True
    with Cons.prems have "ip \<noteq> x" by auto
    with True e Cons show ?thesis by (simp add: delete_conv')
  next
    case False
    with e Cons show ?thesis by auto
  qed
qed

lemma cleanup_fields [simp]:
  "bannedIPs (cleanup now s) = bannedIPs s"
  "banned_ips_file (cleanup now s) = banned_ips_file s"
  "writes (cleanup now s) = writes s"
  by (simp_all add: cleanup_def)

lemma step_banned:
  assumes "Set_has x (bannedIPs s)" "\<not> unbans x e"
  shows "Set_has x (bannedIPs (snd (step e s))) \<and>
         map_of (requestTracker (snd (step e s))) x = map_of (requestTracker s) x \<and>
         (sent_by x e \<longrightarrow> fst (step e s) = Some Blocked)"
proof (cases e)
  case (Request req now stamp)
  with assms(1) middleware_other [OF assms(1), of req now stamp] show ?thesis
    by (auto simp: middleware_banned split: prod.splits)
next
  case (Unban_request req now stamp y)
  with assms(2) have ne: "x \<noteq> Some y" by simp
  obtain out s' where m: "middleware req now stamp s = (out, s')" by (cases "middleware req now stamp s")
  with middleware_other [OF assms(1), of req now stamp]
  have k: "Set_has x (bannedIPs s')" "map_of (requestTracker s') x = map_of (requestTracker s) x"
    by simp_all
  have b: "getRealIP req = x \<longrightarrow> out = Blocked"
    using m assms(1) by (auto simp: middleware_banned)
  show ?thesis
  proof (cases out)
    case Next
    with Unban_request m k ne b show ?thesis by (auto simp: unban_keeps)
  qed (use Unban_request m k b in auto)
next
  case (Cleanup now)
  with assms(1) show ?thesis by (simp add: cleanup_def cleanup_loop_banned)
qed

lemma run_banned:
  assumes "Set_has x (bannedIPs s)" "\<forall>e \<in> set es. \<not> unbans x e"
  shows "Set_has x (bannedIPs (snd (run es s))) \<and>
         map_of (requestTracker (snd (run es s))) x = map_of (requestTracker s) x \<and>
         (\<forall>i < length es. sent_by x (es ! i) \<longrightarrow> fst (run es s) ! i = Some Blocked)"
  using assms
proof (induction es arbitrary: s)
  case Nil
  then show ?case by simp
next
  case (Cons e es)
  obtain out s' where st: "step e s = (out, s')" by (cases "step e s")
  from Cons.prems step_banned [of x s e] st
  have k: "Set_has x (bannedIPs s')" "map_of (requestTracker s') x = map_of (requestTracker s) x"
    "sent_by x e \<longrightarrow> out = Some Blocked" by simp_all
  from Cons.prems have "\<forall>e \<in> set es. \<not> unbans x e" by simp
  from Cons.IH [OF k(1) this]
  have ih: "Set_has x (bannedIPs (snd (run es s')))"
    "map_of (requestTracker (snd (run es s'))) x = map_of (requestTracker s') x"
    "\<forall>i < length es. sent_by x (es ! i) \<longrightarrow> fst (run es s') ! i = Some Blocked" by simp_all
  obtain outs s'' where r: "run es s' = (outs, s'')" by (cases "run es s'")
  have "\<forall>i < length (e # es). sent_by x ((e # es) ! i) \<longrightarrow> (out # outs) ! i = Some Blocked"
  proof (intro allI impI)
    fix i assume "i < length (e # es)" "sent_by x ((e # es) ! i)"
    then show "(out # outs) ! i = Some Blocked"
      using k(3) ih(3) r by (cases i) auto
  qed
  with st r k ih show ?case by simp
qed

lemma cleanup_loop_entry:
  assumes "\<forall>(k, v) \<in> set es. map_of m k = Some v \<or> map_of m k = None"
  shows "map_of (cleanup_loop es now banned m) i =
     (case map_of m i of
        None \<Rightarrow> None
      | Some t \<Rightarrow>
          if (i, t) \<in> set es \<and> now - lastRequest t > 300000 \<and> \<not> Set_has i banned
          then None else Some t)"
  using assms
proof (induction es arbitrary: m)
  case Nil
  then show ?case by (simp split: option.split)
next
  case (Cons e es)
  obtain ip t where e: "e = (ip, t)" by (cases e)
  show ?case
  proof (cases "now - lastRequest t > 300000 \<and> \<not> Set_has ip banned")
    case True
    let ?m = "AList.delete ip m"
    have "\<forall>(k, v) \<in> set es. map_of ?m k = Some v \<or> map_of ?m k = None"
    proof (rule ballI)
      fix x assume x: "x \<in> set es"
      obtain k v where kv: "x = (k, v)" by (cases x)
      with x Cons.prems have "map_of m k = Some v \<or> map_of m k = None" by auto
      then have "map_of ?m k = Some v \<or> map_of ?m k = None"
        by (auto simp: delete_conv')
      with kv show "case x of (k, v) \<Rightarrow> map_of ?m k = Some v \<or> map_of ?m k = None"
        by simp
    qed
    from Cons.IH [OF this] True e
    have "map_of (cleanup_loop (e # es) now banned m) i =
      (case map_of ?m i of
        None \<Rightarrow> None
      | Some t \<Rightarrow>
          if (i, t) \<in> set es \<and> now - lastRequest t > 300000 \<and> \<not> Set_has i banned
          then None else Some t)" by simp
    moreover have "map_of m ip = Some t \<or> map_of m ip = None"
      using Cons.prems e by auto
    ultimately show ?thesis using True e
      by (auto simp: delete_conv' split: option.splits)
  next
    case False
    have "\<forall>(k, v) \<in> set es. map_of m k = Some v \<or> map_of m k = None"
      using Cons.prems by auto
    from Cons.IH [OF this] False e show ?thesis
      by (auto split: option.splits)
  qed
qed

lemma unban_banned:
  "Set_has (Some x) (bannedIPs s) \<Longrightarrow>
   unban stamp x s =
     (True, saveBannedIPs stamp (s\<lparr>bannedIPs := Set_delete (Some x) (bannedIPs s)\<rparr>))"
  by (simp add: unban_def)

lemma Set_delete_has [simp]: "\<not> Set_has x (Set_delete x S)"
  by (simp add: Set_has_def Set_delete_def)

lemma count_list_distinct:
  "distinct (filter P xs) \<Longrightarrow> P a \<Longrightarrow> a \<in> set xs \<Longrightarrow> count_list xs a = 1"
proof (induction xs)
  case Nil
  then show ?case by simp
next
  case (Cons x xs)
  show ?case
  proof (cases "x = a")
    case True
    with Cons.prems have "a \<notin> set xs" by auto
    with True show ?thesis by (simp add: count_list_0_iff)
  next
    case False
    with Cons show ?thesis by (auto split: if_splits)
  qed
qed

lemma primitive_ident [simp]: "primitive (ident x)"
  by (cases x) (simp_all add: ident_def)

lemma Set_add_wf: "Set_wf S \<Longrightarrow> Set_wf (Set_add x S)"
  by (auto simp: Set_wf_def Set_add_def Set_has_def)

lemma banIP_banned: "Set_has x (bannedIPs s) \<Longrightarrow> banIP stamp x s = s"
  by (simp add: banIP_def)

lemma banIP_new:
  "\<not> Set_has x (bannedIPs s) \<Longrightarrow>
   banIP stamp x s = saveBannedIPs stamp (s\<lparr>bannedIPs := bannedIPs s @ [ident x]\<rparr>)"
  by (simp add: banIP_def Set_add_def)

lemma banIP_wf: "Set_wf (bannedIPs s) \<Longrightarrow> Set_wf (bannedIPs (banIP stamp x s))"
  using Set_add_wf [of "bannedIPs s" x] by (simp add: banIP_def)

lemma Set_add_all_wf: "Set_wf (S @ xs) \<Longrightarrow> Set_add_all S xs = S @ xs"
proof (induction xs arbitrary: S)
  case Nil
  then show ?case by simp
next
  case (Cons x xs)
  from Cons.prems have n: "\<not> (primitive x \<and> x \<in> set S)"
    by (auto simp: Set_wf_def)
  from Cons.prems have "Set_wf ((S @ [x]) @ xs)" by simp
  then have "Set_add_all (S @ [x]) xs = (S @ [x]) @ xs" by (rule Cons.IH)
  with n show ?case by auto
qed

lemma Set_add_all_Set_wf: "Set_wf S \<Longrightarrow> Set_wf (Set_add_all S xs)"
  by (induction xs arbitrary: S) (auto simp: Set_wf_def)

lemma stringify_strings:
  "\<forall>x \<in> set S. is_string x \<Longrightarrow> map (Some \<circ> stringify_element) S = S"
proof (induction S)
  case Nil
  then show ?case by simp
next
  case (Cons a S)
  then have "is_string a" by simp
  then obtain v where "a = Some (JStr v)" by (cases a rule: is_string.cases) auto
  with Cons show ?case by (simp add: stringify_element_def)
qed

lemma Set_add_all_not_Nil: "S \<noteq> [] \<Longrightarrow> Set_add_all S xs \<noteq> []"
  by (induction xs arbitrary: S) auto

lemma Set_add_all_Nil [simp]: "Set_add_all [] xs = [] \<longleftrightarrow> xs = []"
  by (cases xs) (auto simp: Set_add_all_not_Nil)

lemma get_ips_data [simp]: "get_ips (data stamp S) = Inr (Some (JArr (map stringify_element S)))"
  by (simp add: data_def)

lemma startup_data:
  "startup stamp' (Holds (Encodes (data stamp S))) w =
     (initial (Holds (Encodes (data stamp S))) w)
       \<lparr>bannedIPs := Set_add_all [] (map (Some \<circ> stringify_element) S)\<rparr>"
  by (simp add: startup_def loadBannedIPs_def loadBannedIPs_try_def initial_def or_empty_def
      new_Set_def)

text \<open>
  What startup loads from a file whose text parses: the characters of \<^verbatim>\<open>ips\<close> when it
  is a string, its elements when it is an array, nothing in every other case.
\<close>

lemma startup_parsed:
  "bannedIPs (startup stamp (Holds (Encodes v)) w) =
     (case v of
        JObj kvs \<Rightarrow>
          (case map_of kvs ''ips'' of
             Some (JStr s) \<Rightarrow> Set_add_all [] (map (\<lambda>c. Some (JStr [c])) s)
           | Some (JArr xs) \<Rightarrow> Set_add_all [] (map Some xs)
           | _ \<Rightarrow> [])
      | _ \<Rightarrow> [])"
  by (auto simp: startup_def loadBannedIPs_def loadBannedIPs_try_def initial_def or_empty_def
      new_Set_def split: json.splits option.splits)

subsection \<open>The invariants of the containers\<close>

text \<open>
  Every state the server reaches satisfies \<open>containers_wf\<close>: it holds after startup,
  whatever the ban file holds, and every event keeps it.
\<close>

lemma Set_delete_wf: "Set_wf S \<Longrightarrow> Set_wf (Set_delete x S)"
  unfolding Set_wf_def Set_delete_def by (induction S) auto

lemma cleanup_loop_distinct:
  "distinct (map fst m) \<Longrightarrow> distinct (map fst (cleanup_loop es now banned m))"
proof (induction es arbitrary: m)
  case Nil
  then show ?case by simp
next
  case (Cons e es)
  obtain ip t where "e = (ip, t)" by (cases e)
  with Cons show ?case by (simp add: distinct_delete)
qed

lemma startup_wf: "containers_wf (startup stamp f w)"
proof -
  have "Set_wf (Set_add_all [] xs)" for xs
    by (rule Set_add_all_Set_wf) (simp add: Set_wf_def)
  then show ?thesis
    by (auto simp: containers_wf_def startup_def loadBannedIPs_def loadBannedIPs_try_def
        initial_def new_Set_def Set_wf_def split: file_state.splits file_text.splits sum.splits)
qed

lemma middleware_wf: "containers_wf s \<Longrightarrow> containers_wf (snd (middleware req now stamp s))"
  by (auto simp: containers_wf_def middleware_def Let_def distinct_update banIP_wf
      split: option.splits)

lemma step_wf: "containers_wf s \<Longrightarrow> containers_wf (snd (step e s))"
proof (cases e)
  case (Request req now stamp)
  assume "containers_wf s"
  from middleware_wf [OF this, of req now stamp] Request show ?thesis
    by (auto split: prod.splits)
next
  case (Unban_request req now stamp y)
  assume "containers_wf s"
  from middleware_wf [OF this, of req now stamp] Unban_request show ?thesis
    by (auto simp: containers_wf_def unban_def Set_delete_wf split: prod.splits outcome.splits)
next
  case (Cleanup now)
  assume "containers_wf s"
  with Cleanup show ?thesis
    by (simp add: containers_wf_def cleanup_def cleanup_loop_distinct)
qed

lemma run_wf: "containers_wf s \<Longrightarrow> containers_wf (snd (run es s))"
proof (induction es arbitrary: s)
  case Nil
  then show ?case by simp
next
  case (Cons e es)
  from step_wf [OF Cons.prems, of e] Cons.IH [of "snd (step e s)"]
  show ?case by (auto split: prod.splits)
qed

section \<open>The threshold\<close>

text \<open>
  C1.  A request of an identity that is not banned and has an entry whose window has not
  expired raises the entry's count by one, and the limit check that follows is
  \<open>count > 50\<close> on the new count: the socket is destroyed and the identity banned
  exactly when it holds, otherwise \<^verbatim>\<open>next()\<close> is called.  Hence, for an identity that is
  new and not banned, fifty requests within the window of the first are all passed on
  (the count is then 50), and the fifty-first within that window is answered by banning
  the identity and destroying the socket.
\<close>

theorem limit_check:
  "(\<not> Set_has (getRealIP req) (bannedIPs s) \<and>
    map_of (requestTracker s) (getRealIP req) = Some t \<and>
    now - firstRequest t \<le> TIME_WINDOW \<longrightarrow>
      (case middleware req now stamp s of (out, s') \<Rightarrow>
         map_of (requestTracker s') (getRealIP req) =
           Some \<lparr>count = count t + 1, firstRequest = firstRequest t, lastRequest = now\<rparr> \<and>
         (out = Banned_now) = (count t + 1 > 50) \<and>
         (out = Next) = (\<not> count t + 1 > 50) \<and>
         Set_has (getRealIP req) (bannedIPs s') = (count t + 1 > 50))) \<and>
   (\<not> Set_has ip (bannedIPs s) \<and> map_of (requestTracker s) ip = None \<and>
    getRealIP req1 = ip \<and> length rest = 49 \<and>
    (\<forall>e \<in> set rest. in_window ip t1 e) \<and> in_window ip t1 e51 \<longrightarrow>
      (\<exists>s50 s51 t50.
         run (Request req1 t1 stamp1 # rest) s = (replicate 50 (Some Next), s50) \<and>
         map_of (requestTracker s50) ip = Some t50 \<and> count t50 = 50 \<and>
         \<not> Set_has ip (bannedIPs s50) \<and>
         step e51 s50 = (Some Banned_now, s51) \<and> Set_has ip (bannedIPs s51)))"
proof (intro conjI impI)
  assume a: "\<not> Set_has (getRealIP req) (bannedIPs s) \<and>
    map_of (requestTracker s) (getRealIP req) = Some t \<and> now - firstRequest t \<le> TIME_WINDOW"
  then show "case middleware req now stamp s of (out, s') \<Rightarrow>
         map_of (requestTracker s') (getRealIP req) =
           Some \<lparr>count = count t + 1, firstRequest = firstRequest t, lastRequest = now\<rparr> \<and>
         (out = Banned_now) = (count t + 1 > 50) \<and>
         (out = Next) = (\<not> count t + 1 > 50) \<and>
         Set_has (getRealIP req) (bannedIPs s') = (count t + 1 > 50)"
    by (simp add: middleware_known track_in_window REQUEST_LIMIT_def update_conv')
next
  assume a: "\<not> Set_has ip (bannedIPs s) \<and> map_of (requestTracker s) ip = None \<and>
    getRealIP req1 = ip \<and> length rest = 49 \<and>
    (\<forall>e \<in> set rest. in_window ip t1 e) \<and> in_window ip t1 e51"
  let ?t1 = "\<lparr>count = 1, firstRequest = t1, lastRequest = t1\<rparr>"
  let ?s1 = "s\<lparr>requestTracker := AList.update ip ?t1 (requestTracker s)\<rparr>"
  from a have m1: "middleware req1 t1 stamp1 s = (Next, ?s1)"
    by (simp add: middleware_new)
  have "\<exists>s' t'. run rest ?s1 = (replicate (length rest) (Some Next), s') \<and>
           map_of (requestTracker s') ip = Some t' \<and>
           count t' = count ?t1 + int (length rest) \<and> firstRequest t' = firstRequest ?t1 \<and>
           bannedIPs s' = bannedIPs ?s1"
  proof (rule burst_admitted)
    show "map_of (requestTracker ?s1) ip = Some ?t1" by (simp add: update_conv')
    show "\<not> Set_has ip (bannedIPs ?s1)" using a by simp
    show "\<forall>e\<in>set rest. in_window ip (firstRequest ?t1) e" using a by simp
    show "count ?t1 + int (length rest) \<le> REQUEST_LIMIT" using a by (simp add: REQUEST_LIMIT_def)
  qed
  then obtain s50 t50 where r: "run rest ?s1 = (replicate (length rest) (Some Next), s50)"
    "map_of (requestTracker s50) ip = Some t50"
    "count t50 = count ?t1 + int (length rest)" "firstRequest t50 = firstRequest ?t1"
    "bannedIPs s50 = bannedIPs ?s1" by blast
  from a have l: "length rest = 49" by simp
  from m1 r(1) l have 1: "run (Request req1 t1 stamp1 # rest) s = (replicate 50 (Some Next), s50)"
    by (simp add: numeral_eq_Suc)
  from r(3) l have 2: "count t50 = 50" by simp
  from r(5) a have 3: "\<not> Set_has ip (bannedIPs s50)" by simp
  from a obtain req now stamp where
    e: "e51 = Request req now stamp" "getRealIP req = ip" "now - t1 \<le> TIME_WINDOW"
    by (cases e51) auto
  let ?s51 = "banIP stamp ip
     (s50\<lparr>requestTracker := AList.update ip (track now t50) (requestTracker s50)\<rparr>)"
  from e r(2,4) 2 3 have 4: "step e51 s50 = (Some Banned_now, ?s51)"
    by (simp add: middleware_known track_in_window REQUEST_LIMIT_def)
  have 5: "Set_has ip (bannedIPs ?s51)" by simp
  from 1 r(2) 2 3 4 5 show "\<exists>s50 s51 t50.
         run (Request req1 t1 stamp1 # rest) s = (replicate 50 (Some Next), s50) \<and>
         map_of (requestTracker s50) ip = Some t50 \<and> count t50 = 50 \<and>
         \<not> Set_has ip (bannedIPs s50) \<and>
         step e51 s50 = (Some Banned_now, s51) \<and> Set_has ip (bannedIPs s51)"
    by blast
qed

theorem limit_check_witness:
  "(case middleware \<lparr>headers = Map.empty, socket_remoteAddress = Some ''A'',
                      connection_remoteAddress = Some ''A''\<rparr> 20 ''t''
          \<lparr>requestTracker = [(Some ''A'', \<lparr>count = 50, firstRequest = 0, lastRequest = 10\<rparr>)],
           bannedIPs = [], banned_ips_file = Missing, writable = True, writes = 0\<rparr>
    of (out, s') \<Rightarrow> out = Banned_now \<and> Set_has (Some ''A'') (bannedIPs s')) \<and>
   (\<exists>s50 s51 t50.
      run (Request \<lparr>headers = Map.empty, socket_remoteAddress = Some ''A'',
                    connection_remoteAddress = Some ''A''\<rparr> 0 ''t'' #
           map (\<lambda>i. Request \<lparr>headers = Map.empty, socket_remoteAddress = Some ''A'',
                              connection_remoteAddress = Some ''A''\<rparr> (int i) ''t'') [1..<50])
        (initial Missing True) = (replicate 50 (Some Next), s50) \<and>
      map_of (requestTracker s50) (Some ''A'') = Some t50 \<and> count t50 = 50 \<and>
      \<not> Set_has (Some ''A'') (bannedIPs s50) \<and>
      step (Request \<lparr>headers = Map.empty, socket_remoteAddress = Some ''A'',
                     connection_remoteAddress = Some ''A''\<rparr> 50 ''t'') s50 = (Some Banned_now, s51) \<and>
      Set_has (Some ''A'') (bannedIPs s51))"
proof -
  let ?r = "\<lparr>headers = Map.empty, socket_remoteAddress = Some ''A'',
             connection_remoteAddress = Some ''A''\<rparr>"
  let ?t = "\<lparr>count = 50, firstRequest = 0, lastRequest = 10\<rparr>"
  let ?s = "\<lparr>requestTracker = [(Some ''A'', ?t)],
           bannedIPs = [], banned_ips_file = Missing, writable = True, writes = 0\<rparr>"
  have g: "getRealIP ?r = Some ''A''" by (simp add: getRealIP_def or_str_def)
  note th1 = limit_check [where req = ?r and s = ?s and t = ?t and now = 20 and stamp = "''t''",
      THEN conjunct1]
  note th2 = limit_check [where s = "initial Missing True" and ip = "Some ''A''" and ?req1.0 = ?r
      and rest = "map (\<lambda>i. Request ?r (int i) ''t'') [1..<50]" and ?t1.0 = 0
      and ?e51.0 = "Request ?r 50 ''t''" and ?stamp1.0 = "''t''",
      THEN conjunct2]
  have 1: "case middleware ?r 20 ''t'' ?s of
      (out, s') \<Rightarrow> out = Banned_now \<and> Set_has (Some ''A'') (bannedIPs s')"
    using th1 g by (auto simp: Set_has_def TIME_WINDOW_def split: prod.splits)
  have 2: "\<exists>s50 s51 t50.
      run (Request ?r 0 ''t'' # map (\<lambda>i. Request ?r (int i) ''t'') [1..<50])
        (initial Missing True) = (replicate 50 (Some Next), s50) \<and>
      map_of (requestTracker s50) (Some ''A'') = Some t50 \<and> count t50 = 50 \<and>
      \<not> Set_has (Some ''A'') (bannedIPs s50) \<and>
      step (Request ?r 50 ''t'') s50 = (Some Banned_now, s51) \<and>
      Set_has (Some ''A'') (bannedIPs s51)"
    using th2 g by (simp add: Set_has_def TIME_WINDOW_def initial_def)
  from 1 2 show ?thesis by blast
qed

section \<open>Banned identities\<close>

text \<open>
  C2.  When the identity of a request is in \<^verbatim>\<open>bannedIPs\<close>, the middleware destroys the
  socket and returns with the whole state as it was: the tracker is neither read nor
  written.  Over any run of the server (requests of any identity to any route, cleanup
  passes) in which no request to the unban route names \<open>x\<close>, an identity \<open>x\<close> that is
  banned stays banned, every request of \<open>x\<close> is blocked, and the tracker has for \<open>x\<close> at
  the end what it had at the start: no entry if there was none, the same count,
  \<open>firstRequest\<close> and \<open>lastRequest\<close> otherwise.
\<close>

theorem banned_bypass_tracker:
  "(Set_has (getRealIP req) (bannedIPs s) \<longrightarrow> middleware req now stamp s = (Blocked, s)) \<and>
   (Set_has x (bannedIPs s) \<and> (\<forall>e \<in> set es. \<not> unbans x e) \<longrightarrow>
      (case run es s of (outs, s') \<Rightarrow>
         Set_has x (bannedIPs s') \<and>
         map_of (requestTracker s') x = map_of (requestTracker s) x \<and>
         (\<forall>i < length es. sent_by x (es ! i) \<longrightarrow> outs ! i = Some Blocked)))"
  using run_banned [of x s es] by (auto simp: middleware_banned split: prod.splits)


theorem banned_bypass_tracker_witness:
  "Set_has (Some ''B'') [Some (JStr ''B'')] \<and>
   (case run [Request \<lparr>headers = [''x-real-ip'' \<mapsto> ''B''], socket_remoteAddress = Some ''P'',
                       connection_remoteAddress = Some ''P''\<rparr> 100 ''t'',
              Request \<lparr>headers = Map.empty, socket_remoteAddress = Some ''A'',
                       connection_remoteAddress = Some ''A''\<rparr> 200 ''t'',
              Cleanup 1000000,
              Unban_request \<lparr>headers = Map.empty, socket_remoteAddress = Some ''A'',
                             connection_remoteAddress = Some ''A''\<rparr> 1000001 ''t'' ''C'',
              Request \<lparr>headers = [''x-real-ip'' \<mapsto> ''B''], socket_remoteAddress = Some ''P'',
                       connection_remoteAddress = Some ''P''\<rparr> 1000002 ''t'']
          \<lparr>requestTracker = [(Some ''B'', \<lparr>count = 51, firstRequest = 0, lastRequest = 50\<rparr>)],
            bannedIPs = [Some (JStr ''B'')], banned_ips_file = Missing, writable = True,
            writes = 0\<rparr>
    of (outs, s') \<Rightarrow>
      Set_has (Some ''B'') (bannedIPs s') \<and>
      map_of (requestTracker s') (Some ''B'') =
        Some \<lparr>count = 51, firstRequest = 0, lastRequest = 50\<rparr> \<and>
      outs ! 0 = Some Blocked \<and> outs ! 4 = Some Blocked)"
proof -
  let ?B = "\<lparr>headers = [''x-real-ip'' \<mapsto> ''B''], socket_remoteAddress = Some ''P'',
             connection_remoteAddress = Some ''P''\<rparr>"
  let ?A = "\<lparr>headers = Map.empty, socket_remoteAddress = Some ''A'',
             connection_remoteAddress = Some ''A''\<rparr>"
  let ?es = "[Request ?B 100 ''t'', Request ?A 200 ''t'', Cleanup 1000000,
              Unban_request ?A 1000001 ''t'' ''C'', Request ?B 1000002 ''t'']"
  let ?s = "\<lparr>requestTracker = [(Some ''B'', \<lparr>count = 51, firstRequest = 0, lastRequest = 50\<rparr>)],
            bannedIPs = [Some (JStr ''B'')], banned_ips_file = Missing, writable = True,
            writes = 0\<rparr>"
  have b: "Set_has (Some ''B'') [Some (JStr ''B'')]" by (simp add: Set_has_def ident_def)
  then have h: "Set_has (Some ''B'') (bannedIPs ?s) \<and> (\<forall>e \<in> set ?es. \<not> unbans (Some ''B'') e)"
    by simp
  have g: "getRealIP ?B = Some ''B''" by (simp add: getRealIP_def)
  obtain outs s' where r: "run ?es ?s = (outs, s')" by (cases "run ?es ?s")
  from banned_bypass_tracker [where x = "Some ''B''" and s = ?s and es = ?es, THEN conjunct2] h r
  have c: "Set_has (Some ''B'') (bannedIPs s')"
    "map_of (requestTracker s') (Some ''B'') = map_of (requestTracker ?s) (Some ''B'')"
    "\<forall>i < length ?es. sent_by (Some ''B'') (?es ! i) \<longrightarrow> outs ! i = Some Blocked"
    by simp_all
  from c(3) [rule_format, of 0] g have 0: "outs ! 0 = Some Blocked" by simp
  from c(3) [rule_format, of 4] g have 4: "outs ! 4 = Some Blocked" by simp
  from c(2) have 2: "map_of (requestTracker s') (Some ''B'') =
      Some \<lparr>count = 51, firstRequest = 0, lastRequest = 50\<rparr>" by simp
  from b r c(1) 0 4 2 show ?thesis by simp
qed

section \<open>The window\<close>

text \<open>
  C3.  The entry of an identity that is not banned, after one request at time \<open>now\<close>:
  when there was none it is created with count 1 and \<open>firstRequest = now\<close>; when there
  was one and \<open>now - firstRequest > TIME_WINDOW\<close> the count is reset to 1 and
  \<open>firstRequest\<close> becomes \<open>now\<close>; otherwise the count is incremented and \<open>firstRequest\<close>
  kept; \<open>lastRequest\<close> is \<open>now\<close> in every case.  So after a first request at \<open>now\<close>, a
  second one at \<open>now + TIME_WINDOW + 1\<close> leaves the count at 1 (and one at
  \<open>now + TIME_WINDOW\<close>, the last instant of the window, makes it 2).
\<close>

theorem tumbling_window:
  assumes "\<not> Set_has (getRealIP req) (bannedIPs s)"
  shows "map_of (requestTracker (snd (middleware req now stamp s))) (getRealIP req) =
     Some (case map_of (requestTracker s) (getRealIP req) of
             None \<Rightarrow> \<lparr>count = 1, firstRequest = now, lastRequest = now\<rparr>
           | Some t \<Rightarrow>
               if now - firstRequest t > TIME_WINDOW
               then \<lparr>count = 1, firstRequest = now, lastRequest = now\<rparr>
               else \<lparr>count = count t + 1, firstRequest = firstRequest t, lastRequest = now\<rparr>) \<and>
   (map_of (requestTracker s) (getRealIP req) = None \<and> getRealIP req' = getRealIP req \<longrightarrow>
      map_of (requestTracker
                (snd (middleware req' (now + TIME_WINDOW + 1) stamp'
                   (snd (middleware req now stamp s))))) (getRealIP req) =
        Some \<lparr>count = 1, firstRequest = now + TIME_WINDOW + 1,
               lastRequest = now + TIME_WINDOW + 1\<rparr> \<and>
      map_of (requestTracker
                (snd (middleware req' (now + TIME_WINDOW) stamp'
                   (snd (middleware req now stamp s))))) (getRealIP req) =
        Some \<lparr>count = 2, firstRequest = now, lastRequest = now + TIME_WINDOW\<rparr>)"
proof (intro conjI impI)
  show "map_of (requestTracker (snd (middleware req now stamp s))) (getRealIP req) =
     Some (case map_of (requestTracker s) (getRealIP req) of
             None \<Rightarrow> \<lparr>count = 1, firstRequest = now, lastRequest = now\<rparr>
           | Some t \<Rightarrow>
               if now - firstRequest t > TIME_WINDOW
               then \<lparr>count = 1, firstRequest = now, lastRequest = now\<rparr>
               else \<lparr>count = count t + 1, firstRequest = firstRequest t, lastRequest = now\<rparr>)"
    using assms by (simp add: middleware_entry track_def split: option.split)
next
  assume a: "map_of (requestTracker s) (getRealIP req) = None \<and> getRealIP req' = getRealIP req"
  let ?ip = "getRealIP req"
  let ?t = "\<lparr>count = 1, firstRequest = now, lastRequest = now\<rparr>"
  let ?s1 = "s\<lparr>requestTracker := AList.update ?ip ?t (requestTracker s)\<rparr>"
  from a assms have 1: "snd (middleware req now stamp s) = ?s1"
    by (simp add: middleware_new)
  have nb: "\<not> Set_has (getRealIP req') (bannedIPs ?s1)" using a assms by simp
  have e: "map_of (requestTracker ?s1) (getRealIP req') = Some ?t"
    using a by (simp add: update_conv')
  have "map_of (requestTracker (snd (middleware req' (now + TIME_WINDOW + 1) stamp' ?s1)))
          (getRealIP req') = Some (track (now + TIME_WINDOW + 1) ?t)"
    using middleware_entry [OF nb] e by simp
  with a 1 show "map_of (requestTracker
                (snd (middleware req' (now + TIME_WINDOW + 1) stamp'
                   (snd (middleware req now stamp s))))) (getRealIP req) =
        Some \<lparr>count = 1, firstRequest = now + TIME_WINDOW + 1,
               lastRequest = now + TIME_WINDOW + 1\<rparr>"
    by (simp add: track_def)
  have "map_of (requestTracker (snd (middleware req' (now + TIME_WINDOW) stamp' ?s1)))
          (getRealIP req') = Some (track (now + TIME_WINDOW) ?t)"
    using middleware_entry [OF nb] e by simp
  with a 1 show "map_of (requestTracker
                (snd (middleware req' (now + TIME_WINDOW) stamp'
                   (snd (middleware req now stamp s))))) (getRealIP req) =
        Some \<lparr>count = 2, firstRequest = now, lastRequest = now + TIME_WINDOW\<rparr>"
    by (simp add: track_def)
qed

theorem tumbling_window_witness:
  "\<not> Set_has (Some ''A'') [] \<and>
   map_of (requestTracker (snd (middleware
       \<lparr>headers = Map.empty, socket_remoteAddress = Some ''A'',
         connection_remoteAddress = Some ''A''\<rparr> 1000 ''t'' (initial Missing True))))
     (Some ''A'') = Some \<lparr>count = 1, firstRequest = 1000, lastRequest = 1000\<rparr> \<and>
   map_of (requestTracker
      (snd (middleware \<lparr>headers = Map.empty, socket_remoteAddress = Some ''A'',
                         connection_remoteAddress = Some ''A''\<rparr> 61001 ''u''
         (snd (middleware \<lparr>headers = Map.empty, socket_remoteAddress = Some ''A'',
                            connection_remoteAddress = Some ''A''\<rparr> 1000 ''t''
            (initial Missing True))))))
     (Some ''A'') = Some \<lparr>count = 1, firstRequest = 61001, lastRequest = 61001\<rparr>"
proof -
  let ?r = "\<lparr>headers = Map.empty, socket_remoteAddress = Some ''A'',
             connection_remoteAddress = Some ''A''\<rparr>"
  have g: "getRealIP ?r = Some ''A''" by (simp add: getRealIP_def or_str_def)
  have n: "\<not> Set_has (getRealIP ?r) (bannedIPs (initial Missing True))"
    by (simp add: Set_has_def initial_def)
  note th = tumbling_window [OF n, where now = 1000 and stamp = "''t''" and req' = ?r
      and stamp' = "''u''"]
  have 0: "\<not> Set_has (Some ''A'') []" by (simp add: Set_has_def)
  have 1: "map_of (requestTracker (snd (middleware ?r 1000 ''t'' (initial Missing True))))
     (Some ''A'') = Some \<lparr>count = 1, firstRequest = 1000, lastRequest = 1000\<rparr>"
    using th [THEN conjunct1] g by (simp add: initial_def)
  have 2: "map_of (requestTracker (snd (middleware ?r 61001 ''u''
         (snd (middleware ?r 1000 ''t'' (initial Missing True))))))
     (Some ''A'') = Some \<lparr>count = 1, firstRequest = 61001, lastRequest = 61001\<rparr>"
    using th [THEN conjunct2] g by (simp add: initial_def TIME_WINDOW_def)
  from 0 1 2 show ?thesis by blast
qed

section \<open>The identity of a request\<close>

text \<open>
  C4.  \<^verbatim>\<open>getRealIP\<close> selects by a fixed precedence, the first header that is present
  with a non-empty value winning: \<^verbatim>\<open>cf-connecting-ip\<close>, then \<^verbatim>\<open>x-real-ip\<close>, then the
  left-most comma-separated entry of \<^verbatim>\<open>x-forwarded-for\<close> with the white space at its
  two ends removed, then the peer address of the socket.  The third case says what the
  entry is without naming the functions that compute it: the header value is
  \<open>ws1 @ e @ ws2 @ rest\<close>, where \<open>rest\<close> is empty or starts with the first comma, \<open>ws1\<close>
  and \<open>ws2\<close> are white space, and \<open>e\<close> neither starts nor ends with white space.
\<close>

theorem getRealIP_precedence:
  "(truthy_str (headers req ''cf-connecting-ip'') \<longrightarrow>
      getRealIP req = headers req ''cf-connecting-ip'') \<and>
   (\<not> truthy_str (headers req ''cf-connecting-ip'') \<and> truthy_str (headers req ''x-real-ip'') \<longrightarrow>
      getRealIP req = headers req ''x-real-ip'') \<and>
   (\<not> truthy_str (headers req ''cf-connecting-ip'') \<and> \<not> truthy_str (headers req ''x-real-ip'') \<and>
    headers req ''x-forwarded-for'' = Some f \<and> f \<noteq> [] \<longrightarrow>
      (\<exists>e ws1 ws2 rest.
         getRealIP req = Some e \<and> f = ws1 @ e @ ws2 @ rest \<and>
         CHR '','' \<notin> set (ws1 @ e @ ws2) \<and> (rest = [] \<or> hd rest = CHR '','') \<and>
         list_all isWhiteSpace ws1 \<and> list_all isWhiteSpace ws2 \<and>
         (e = [] \<or> \<not> isWhiteSpace (hd e) \<and> \<not> isWhiteSpace (last e)))) \<and>
   (\<not> truthy_str (headers req ''cf-connecting-ip'') \<and> \<not> truthy_str (headers req ''x-real-ip'') \<and>
    \<not> truthy_str (headers req ''x-forwarded-for'') \<longrightarrow>
      getRealIP req = or_str (socket_remoteAddress req) (connection_remoteAddress req))"
proof (intro conjI impI)
  assume a: "\<not> truthy_str (headers req ''cf-connecting-ip'') \<and> \<not> truthy_str (headers req ''x-real-ip'') \<and>
    headers req ''x-forwarded-for'' = Some f \<and> f \<noteq> []"
  let ?e = "trim (split_comma_0 f)"
  let ?rest = "dropWhile (\<lambda>c. c \<noteq> CHR '','') f"
  from a have g: "getRealIP req = Some ?e" by (simp add: getRealIP_def)
  obtain ws1 ws2 where w: "split_comma_0 f = ws1 @ ?e @ ws2"
    "list_all isWhiteSpace ws1" "list_all isWhiteSpace ws2"
    using trim_decomposition [of "split_comma_0 f"] by blast
  have "f = split_comma_0 f @ ?rest" by (simp add: split_comma_0_def)
  with w(1) have f: "f = ws1 @ ?e @ ws2 @ ?rest" by (metis append_assoc)
  have nc: "CHR '','' \<notin> set (ws1 @ ?e @ ws2)"
    using split_comma_0_no_comma [of f] w(1) by metis
  have e: "?e = [] \<or> \<not> isWhiteSpace (hd ?e) \<and> \<not> isWhiteSpace (last ?e)"
    using trim_ends [of "split_comma_0 f"] by blast
  from g f nc split_comma_0_rest [of f] w(2,3) e
  show "\<exists>e ws1 ws2 rest.
         getRealIP req = Some e \<and> f = ws1 @ e @ ws2 @ rest \<and>
         CHR '','' \<notin> set (ws1 @ e @ ws2) \<and> (rest = [] \<or> hd rest = CHR '','') \<and>
         list_all isWhiteSpace ws1 \<and> list_all isWhiteSpace ws2 \<and>
         (e = [] \<or> \<not> isWhiteSpace (hd e) \<and> \<not> isWhiteSpace (last e))"
    by blast
qed (simp_all add: getRealIP_def)

theorem getRealIP_precedence_witness:
  "getRealIP \<lparr>headers = [''cf-connecting-ip'' \<mapsto> ''4.4.4.4'', ''x-real-ip'' \<mapsto> ''3.3.3.3''],
              socket_remoteAddress = Some ''9.9.9.9'',
              connection_remoteAddress = Some ''9.9.9.9''\<rparr> = Some ''4.4.4.4'' \<and>
   getRealIP \<lparr>headers = [''x-forwarded-for'' \<mapsto> ''1.1.1.1, 2.2.2.2'', ''x-real-ip'' \<mapsto> ''3.3.3.3''],
              socket_remoteAddress = Some ''9.9.9.9'',
              connection_remoteAddress = Some ''9.9.9.9''\<rparr> = Some ''3.3.3.3'' \<and>
   (\<exists>e ws1 ws2 rest.
      getRealIP \<lparr>headers = [''x-forwarded-for'' \<mapsto> ''1.1.1.1, 2.2.2.2''],
                 socket_remoteAddress = Some ''9.9.9.9'',
                 connection_remoteAddress = Some ''9.9.9.9''\<rparr> = Some e \<and>
      e = ''1.1.1.1'' \<and> ''1.1.1.1, 2.2.2.2'' = ws1 @ e @ ws2 @ rest \<and>
      CHR '','' \<notin> set (ws1 @ e @ ws2) \<and> (rest = [] \<or> hd rest = CHR '','')) \<and>
   getRealIP \<lparr>headers = Map.empty, socket_remoteAddress = Some ''9.9.9.9'',
              connection_remoteAddress = Some ''9.9.9.9''\<rparr> = Some ''9.9.9.9''"
proof -
  let ?r1 = "\<lparr>headers = [''cf-connecting-ip'' \<mapsto> ''4.4.4.4'', ''x-real-ip'' \<mapsto> ''3.3.3.3''],
              socket_remoteAddress = Some ''9.9.9.9'',
              connection_remoteAddress = Some ''9.9.9.9''\<rparr>"
  let ?r2 = "\<lparr>headers = [''x-forwarded-for'' \<mapsto> ''1.1.1.1, 2.2.2.2'', ''x-real-ip'' \<mapsto> ''3.3.3.3''],
              socket_remoteAddress = Some ''9.9.9.9'',
              connection_remoteAddress = Some ''9.9.9.9''\<rparr>"
  let ?r3 = "\<lparr>headers = [''x-forwarded-for'' \<mapsto> ''1.1.1.1, 2.2.2.2''],
                 socket_remoteAddress = Some ''9.9.9.9'',
                 connection_remoteAddress = Some ''9.9.9.9''\<rparr>"
  let ?r4 = "\<lparr>headers = Map.empty, socket_remoteAddress = Some ''9.9.9.9'',
              connection_remoteAddress = Some ''9.9.9.9''\<rparr>"
  have 1: "getRealIP ?r1 = Some ''4.4.4.4''"
    using getRealIP_precedence [where req = ?r1, THEN conjunct1] by simp
  have 2: "getRealIP ?r2 = Some ''3.3.3.3''"
    using getRealIP_precedence [where req = ?r2, THEN conjunct2, THEN conjunct1] by simp
  have "\<exists>e ws1 ws2 rest.
      getRealIP ?r3 = Some e \<and> ''1.1.1.1, 2.2.2.2'' = ws1 @ e @ ws2 @ rest \<and>
      CHR '','' \<notin> set (ws1 @ e @ ws2) \<and> (rest = [] \<or> hd rest = CHR '','') \<and>
      list_all isWhiteSpace ws1 \<and> list_all isWhiteSpace ws2 \<and>
      (e = [] \<or> \<not> isWhiteSpace (hd e) \<and> \<not> isWhiteSpace (last e))"
    using getRealIP_precedence [where req = ?r3 and f = "''1.1.1.1, 2.2.2.2''",
        THEN conjunct2, THEN conjunct2, THEN conjunct1] by simp
  moreover have "getRealIP ?r3 = Some ''1.1.1.1''"
    by (simp add: getRealIP_def trim_def split_comma_0_def isWhiteSpace_def)
  ultimately have 3: "\<exists>e ws1 ws2 rest.
      getRealIP ?r3 = Some e \<and> e = ''1.1.1.1'' \<and> ''1.1.1.1, 2.2.2.2'' = ws1 @ e @ ws2 @ rest \<and>
      CHR '','' \<notin> set (ws1 @ e @ ws2) \<and> (rest = [] \<or> hd rest = CHR '','')"
    by auto
  have 4: "getRealIP ?r4 = Some ''9.9.9.9''"
    using getRealIP_precedence [where req = ?r4, THEN conjunct2, THEN conjunct2, THEN conjunct2]
    by (simp add: or_str_def)
  from 1 2 3 4 show ?thesis by blast
qed

text \<open>
  C5 (as amended).  \<^verbatim>\<open>getRealIP\<close> has no failing path and its result depends on the
  request only; the result is a string or \<^verbatim>\<open>undefined\<close>.  It is \<^verbatim>\<open>undefined\<close> exactly
  when none of the three headers has a non-empty value, \<^verbatim>\<open>req.socket.remoteAddress\<close> is
  undefined or empty and \<^verbatim>\<open>req.connection.remoteAddress\<close> is undefined; in every other
  case it is a string.
\<close>

theorem getRealIP_result:
  "(getRealIP req = None) =
     (\<not> truthy_str (headers req ''cf-connecting-ip'') \<and> \<not> truthy_str (headers req ''x-real-ip'') \<and>
      \<not> truthy_str (headers req ''x-forwarded-for'') \<and>
      \<not> truthy_str (socket_remoteAddress req) \<and> connection_remoteAddress req = None)"
  by (cases "headers req ''cf-connecting-ip''"; cases "headers req ''x-real-ip''";
      cases "headers req ''x-forwarded-for''"; cases "socket_remoteAddress req")
     (auto simp: getRealIP_def or_str_def Let_def)

text \<open>
  With no header and no peer address the result is \<^verbatim>\<open>undefined\<close>, which is not a
  string.
\<close>

theorem getRealIP_undefined_counterexample:
  "getRealIP \<lparr>headers = Map.empty, socket_remoteAddress = None,
              connection_remoteAddress = None\<rparr> = None"
  by (simp add: getRealIP_def or_str_def)

theorem getRealIP_result_witness:
  "getRealIP \<lparr>headers = Map.empty, socket_remoteAddress = Some [],
              connection_remoteAddress = None\<rparr> = None \<and>
   getRealIP \<lparr>headers = [''x-forwarded-for'' \<mapsto> '',''], socket_remoteAddress = None,
              connection_remoteAddress = None\<rparr> \<noteq> None"
  using getRealIP_result [of "\<lparr>headers = Map.empty, socket_remoteAddress = Some [],
              connection_remoteAddress = None\<rparr>"]
    getRealIP_result [of "\<lparr>headers = [''x-forwarded-for'' \<mapsto> '',''], socket_remoteAddress = None,
              connection_remoteAddress = None\<rparr>"]
  by simp

section \<open>The ban list\<close>

text \<open>
  C6 (as amended).  \<^verbatim>\<open>banIP\<close> is idempotent.  When \<open>x\<close> is banned already it changes
  nothing and writes nothing; otherwise it appends \<open>x\<close> to \<^verbatim>\<open>bannedIPs\<close> and calls
  \<^verbatim>\<open>saveBannedIPs\<close> before it returns, so that the file, when the write succeeds, holds
  the new list.  Two calls in a row therefore write once when \<open>x\<close> was not banned before
  the first call and not at all when it was, and leave \<open>x\<close> in the set exactly once.
\<close>

theorem banIP_twice:
  "banIP stamp2 x (banIP stamp1 x s) = banIP stamp1 x s \<and>
   writes (banIP stamp2 x (banIP stamp1 x s)) =
     writes s + (if Set_has x (bannedIPs s) then 0 else 1) \<and>
   (Set_has x (bannedIPs s) \<longrightarrow> banIP stamp1 x s = s) \<and>
   (\<not> Set_has x (bannedIPs s) \<longrightarrow>
      bannedIPs (banIP stamp1 x s) = bannedIPs s @ [ident x] \<and>
      (writable s \<longrightarrow>
         banned_ips_file (banIP stamp1 x s) =
           Holds (Encodes (data stamp1 (bannedIPs s @ [ident x]))))) \<and>
   (Set_wf (bannedIPs s) \<longrightarrow>
      count_list (bannedIPs (banIP stamp2 x (banIP stamp1 x s))) (ident x) = 1)"
proof (intro conjI impI)
  show i: "banIP stamp2 x (banIP stamp1 x s) = banIP stamp1 x s"
    by (rule banIP_banned) simp
  show "writes (banIP stamp2 x (banIP stamp1 x s)) =
     writes s + (if Set_has x (bannedIPs s) then 0 else 1)"
    unfolding i by (simp add: banIP_def)
  show "Set_has x (bannedIPs s) \<Longrightarrow> banIP stamp1 x s = s" by (rule banIP_banned)
  show "\<not> Set_has x (bannedIPs s) \<Longrightarrow> bannedIPs (banIP stamp1 x s) = bannedIPs s @ [ident x]"
    by (simp add: banIP_new)
  show "\<not> Set_has x (bannedIPs s) \<Longrightarrow> writable s \<Longrightarrow>
      banned_ips_file (banIP stamp1 x s) =
           Holds (Encodes (data stamp1 (bannedIPs s @ [ident x])))"
    by (simp add: banIP_new saveBannedIPs_def)
  assume "Set_wf (bannedIPs s)"
  then have "Set_wf (bannedIPs (banIP stamp1 x s))" by (rule banIP_wf)
  then have "distinct (filter primitive (bannedIPs (banIP stamp1 x s)))" by (simp add: Set_wf_def)
  moreover have "ident x \<in> set (bannedIPs (banIP stamp1 x s))"
    using banIP_has [of x stamp1 s] by (simp add: Set_has_def)
  ultimately have "count_list (bannedIPs (banIP stamp1 x s)) (ident x) = 1"
    by (intro count_list_distinct [where P = primitive]) simp_all
  then show "count_list (bannedIPs (banIP stamp2 x (banIP stamp1 x s))) (ident x) = 1"
    unfolding i .
qed

text \<open>
  Two calls from a state in which the identity is banned already write nothing: the
  count of writes, 0 before, is 0 after.
\<close>

theorem banIP_twice_no_write_counterexample:
  "writes (banIP ''t2'' (Some ''1.2.3.4'') (banIP ''t1'' (Some ''1.2.3.4'')
     \<lparr>requestTracker = [], bannedIPs = [Some (JStr ''1.2.3.4'')],
       banned_ips_file = Missing, writable = True, writes = 0\<rparr>)) = 0"
  by (simp add: banIP_def Set_has_def ident_def)

theorem banIP_twice_witness:
  "Set_wf [Some (JStr ''5.6.7.8'')] \<and> \<not> Set_has (Some ''1.2.3.4'') [Some (JStr ''5.6.7.8'')] \<and>
   writes (banIP ''t2'' (Some ''1.2.3.4'') (banIP ''t1'' (Some ''1.2.3.4'')
     \<lparr>requestTracker = [], bannedIPs = [Some (JStr ''5.6.7.8'')],
       banned_ips_file = Missing, writable = True, writes = 0\<rparr>)) = 1 \<and>
   bannedIPs (banIP ''t1'' (Some ''1.2.3.4'')
     \<lparr>requestTracker = [], bannedIPs = [Some (JStr ''5.6.7.8'')],
       banned_ips_file = Missing, writable = True, writes = 0\<rparr>) =
     [Some (JStr ''5.6.7.8''), Some (JStr ''1.2.3.4'')] \<and>
   banned_ips_file (banIP ''t1'' (Some ''1.2.3.4'')
     \<lparr>requestTracker = [], bannedIPs = [Some (JStr ''5.6.7.8'')],
       banned_ips_file = Missing, writable = True, writes = 0\<rparr>) =
     Holds (Encodes (JObj [(''ips'', JArr [JStr ''5.6.7.8'', JStr ''1.2.3.4'']),
                           (''lastUpdated'', JStr ''t1''), (''totalBanned'', JNum (Num 2))])) \<and>
   count_list (bannedIPs (banIP ''t2'' (Some ''1.2.3.4'') (banIP ''t1'' (Some ''1.2.3.4'')
     \<lparr>requestTracker = [], bannedIPs = [Some (JStr ''5.6.7.8'')],
       banned_ips_file = Missing, writable = True, writes = 0\<rparr>))) (Some (JStr ''1.2.3.4'')) = 1"
proof -
  let ?s = "\<lparr>requestTracker = [], bannedIPs = [Some (JStr ''5.6.7.8'')],
       banned_ips_file = Missing, writable = True, writes = 0\<rparr>"
  have w: "Set_wf [Some (JStr ''5.6.7.8'')]" by (simp add: Set_wf_def)
  have n: "\<not> Set_has (Some ''1.2.3.4'') [Some (JStr ''5.6.7.8'')]"
    by (simp add: Set_has_def ident_def)
  note th = banIP_twice [where s = ?s and x = "Some ''1.2.3.4''" and ?stamp1.0 = "''t1''"
      and ?stamp2.0 = "''t2''"]
  from th [THEN conjunct2, THEN conjunct1] n have 1: "writes (banIP ''t2'' (Some ''1.2.3.4'') (banIP ''t1'' (Some ''1.2.3.4'') ?s)) = 1"
    by simp
  from th [THEN conjunct2, THEN conjunct2, THEN conjunct2, THEN conjunct1] n have 2: "bannedIPs (banIP ''t1'' (Some ''1.2.3.4'') ?s) =
     [Some (JStr ''5.6.7.8''), Some (JStr ''1.2.3.4'')]"
    by (simp add: ident_def)
  from th [THEN conjunct2, THEN conjunct2, THEN conjunct2, THEN conjunct1] n have 3: "banned_ips_file (banIP ''t1'' (Some ''1.2.3.4'') ?s) =
     Holds (Encodes (JObj [(''ips'', JArr [JStr ''5.6.7.8'', JStr ''1.2.3.4'']),
                           (''lastUpdated'', JStr ''t1''), (''totalBanned'', JNum (Num 2))]))"
    by (simp add: ident_def data_def stringify_element_def)
  from th [THEN conjunct2, THEN conjunct2, THEN conjunct2, THEN conjunct2] w have 4: "count_list (bannedIPs (banIP ''t2'' (Some ''1.2.3.4'')
      (banIP ''t1'' (Some ''1.2.3.4'') ?s))) (Some (JStr ''1.2.3.4'')) = 1"
    by (simp add: ident_def)
  from w n 1 2 3 4 show ?thesis by blast
qed

text \<open>
  C7 (as amended).  \<^verbatim>\<open>saveBannedIPs\<close>, when the write succeeds, leaves in the file the
  record \<^verbatim>\<open>{ips, lastUpdated, totalBanned}\<close> with \<^verbatim>\<open>totalBanned\<close> the length of
  \<^verbatim>\<open>ips\<close>.  For every ban set whose members are identity strings, loading that file
  in a fresh process gives back the same set, with the members in the same order.
  (Members that are not strings need not come back: \<^verbatim>\<open>undefined\<close> and an infinite
  number are both written as \<^verbatim>\<open>null\<close>.)
\<close>

theorem persistence_round_trip:
  "(writable s \<longrightarrow>
      banned_ips_file (saveBannedIPs stamp s) =
        Holds (Encodes (JObj [(''ips'', JArr (map stringify_element (bannedIPs s))),
                              (''lastUpdated'', JStr stamp),
                              (''totalBanned'',
                                 JNum (Num (int (length (map stringify_element (bannedIPs s))))))]))) \<and>
   (writable s \<and> Set_wf (bannedIPs s) \<and> (\<forall>x \<in> set (bannedIPs s). is_string x) \<longrightarrow>
      bannedIPs (startup stamp' (banned_ips_file (saveBannedIPs stamp s)) w) = bannedIPs s \<and>
      set (bannedIPs (startup stamp' (banned_ips_file (saveBannedIPs stamp s)) w)) =
        set (bannedIPs s))"
proof (intro conjI impI)
  assume "writable s"
  then show "banned_ips_file (saveBannedIPs stamp s) =
        Holds (Encodes (JObj [(''ips'', JArr (map stringify_element (bannedIPs s))),
                              (''lastUpdated'', JStr stamp),
                              (''totalBanned'',
                                 JNum (Num (int (length (map stringify_element (bannedIPs s))))))]))"
    by (simp add: saveBannedIPs_def data_def)
next
  assume a: "writable s \<and> Set_wf (bannedIPs s) \<and> (\<forall>x \<in> set (bannedIPs s). is_string x)"
  then have f: "banned_ips_file (saveBannedIPs stamp s) = Holds (Encodes (data stamp (bannedIPs s)))"
    by (simp add: saveBannedIPs_def)
  from a have "map (Some \<circ> stringify_element) (bannedIPs s) = bannedIPs s"
    by (simp add: stringify_strings)
  moreover from a have "Set_add_all [] (bannedIPs s) = [] @ bannedIPs s"
    by (intro Set_add_all_wf) simp
  ultimately show 1: "bannedIPs (startup stamp' (banned_ips_file (saveBannedIPs stamp s)) w) = bannedIPs s"
    unfolding f startup_data by simp
  then show "set (bannedIPs (startup stamp' (banned_ips_file (saveBannedIPs stamp s)) w)) =
        set (bannedIPs s)" by simp
qed

theorem persistence_round_trip_witness:
  "Set_wf [Some (JStr ''1.2.3.4''), Some (JStr ''5.6.7.8'')] \<and>
   banned_ips_file (saveBannedIPs ''t''
      \<lparr>requestTracker = [], bannedIPs = [Some (JStr ''1.2.3.4''), Some (JStr ''5.6.7.8'')],
        banned_ips_file = Missing, writable = True, writes = 0\<rparr>) =
     Holds (Encodes (JObj [(''ips'', JArr [JStr ''1.2.3.4'', JStr ''5.6.7.8'']),
                           (''lastUpdated'', JStr ''t''), (''totalBanned'', JNum (Num 2))])) \<and>
   bannedIPs (startup ''u'' (banned_ips_file (saveBannedIPs ''t''
      \<lparr>requestTracker = [], bannedIPs = [Some (JStr ''1.2.3.4''), Some (JStr ''5.6.7.8'')],
        banned_ips_file = Missing, writable = True, writes = 0\<rparr>)) True) =
     [Some (JStr ''1.2.3.4''), Some (JStr ''5.6.7.8'')]"
proof -
  let ?s = "\<lparr>requestTracker = [], bannedIPs = [Some (JStr ''1.2.3.4''), Some (JStr ''5.6.7.8'')],
        banned_ips_file = Missing, writable = True, writes = 0\<rparr>"
  have w: "Set_wf [Some (JStr ''1.2.3.4''), Some (JStr ''5.6.7.8'')]" by (simp add: Set_wf_def)
  note th = persistence_round_trip [where s = ?s and stamp = "''t''" and stamp' = "''u''"
      and w = True]
  from th [THEN conjunct1] have 1: "banned_ips_file (saveBannedIPs ''t'' ?s) =
     Holds (Encodes (JObj [(''ips'', JArr [JStr ''1.2.3.4'', JStr ''5.6.7.8'']),
                           (''lastUpdated'', JStr ''t''), (''totalBanned'', JNum (Num 2))]))"
    by (simp add: stringify_element_def)
  from th [THEN conjunct2] w
  have 2: "bannedIPs (startup ''u'' (banned_ips_file (saveBannedIPs ''t'' ?s)) True) =
     [Some (JStr ''1.2.3.4''), Some (JStr ''5.6.7.8'')]"
    by simp
  from w 1 2 show ?thesis by blast
qed

text \<open>
  The member \<^verbatim>\<open>undefined\<close> is not restored.  Fifty-one requests with no identity header
  and no peer address ban the identity \<^verbatim>\<open>undefined\<close>; the ban set is then
  \<open>[None]\<close>.  Saved, it is written as \<^verbatim>\<open>[null]\<close>, and a fresh process loads the set
  whose one member is \<^verbatim>\<open>null\<close>: another set, in which \<^verbatim>\<open>undefined\<close> is not banned.
\<close>

theorem undefined_not_restored_counterexample:
  "bannedIPs (snd (run
      (replicate 51 (Request \<lparr>headers = Map.empty, socket_remoteAddress = None,
                                 connection_remoteAddress = None\<rparr> 0 ''t''))
      (initial Missing True))) = [None] \<and>
   bannedIPs (startup ''u'' (banned_ips_file (saveBannedIPs ''t'' (snd (run
      (replicate 51 (Request \<lparr>headers = Map.empty, socket_remoteAddress = None,
                                 connection_remoteAddress = None\<rparr> 0 ''t''))
      (initial Missing True))))) True) = [Some JNull] \<and>
   set [Some JNull] \<noteq> set [None :: jsval] \<and>
   \<not> Set_has None [Some JNull]"
proof (intro conjI)
  show "bannedIPs (snd (run
      (replicate 51 (Request \<lparr>headers = Map.empty, socket_remoteAddress = None,
                                 connection_remoteAddress = None\<rparr> 0 ''t''))
      (initial Missing True))) = [None]"
    by code_simp
  show "bannedIPs (startup ''u'' (banned_ips_file (saveBannedIPs ''t'' (snd (run
      (replicate 51 (Request \<lparr>headers = Map.empty, socket_remoteAddress = None,
                                 connection_remoteAddress = None\<rparr> 0 ''t''))
      (initial Missing True))))) True) = [Some JNull]"
    by code_simp
  show "set [Some JNull] \<noteq> set [None :: jsval]" by simp
  show "\<not> Set_has None [Some JNull]" by (simp add: Set_has_def ident_def)
qed

section \<open>Startup\<close>

text \<open>
  C8 (as amended).  \<^verbatim>\<open>loadBannedIPs\<close> at startup never fails: \<open>startup\<close> yields a state
  for every ban file, an exception thrown inside the \<^verbatim>\<open>try\<close> block being caught.  When
  the file is missing the ban set is empty and \<^verbatim>\<open>saveBannedIPs\<close> is called at once, so
  that the file exists afterwards (when the write succeeds) and holds the empty list.
  When the file is there, nothing is written and the tracker is empty, and the ban set
  is empty exactly when the file cannot be read, or its text is not JSON, or it parses to
  a value that is not an object with a non-empty array or a non-empty string under
  \<^verbatim>\<open>ips\<close>; every content on which the \<^verbatim>\<open>try\<close> block throws is of that kind.  What
  parses is not validated any further: an array under \<^verbatim>\<open>ips\<close> is loaded as the set of
  its elements, whatever they are, and a string as the set of its characters.
\<close>

theorem load_fails_safe:
  "bannedIPs (startup stamp Missing w) = [] \<and>
   writes (startup stamp Missing w) = 1 \<and>
   (w \<longrightarrow> banned_ips_file (startup stamp Missing w) =
      Holds (Encodes (JObj [(''ips'', JArr []), (''lastUpdated'', JStr stamp),
                            (''totalBanned'', JNum (Num 0))]))) \<and>
   (f \<noteq> Missing \<longrightarrow>
      banned_ips_file (startup stamp f w) = f \<and> writes (startup stamp f w) = 0 \<and>
      requestTracker (startup stamp f w) = []) \<and>
   (bannedIPs (startup stamp f w) = []) =
     (case f of Holds (Encodes v) \<Rightarrow> \<not> carries_ips v | _ \<Rightarrow> True) \<and>
   (loadBannedIPs_try stamp (initial f w) = Inl e \<longrightarrow> startup stamp f w = initial f w) \<and>
   (map_of kvs ''ips'' = Some (JArr xs) \<longrightarrow>
      bannedIPs (startup stamp (Holds (Encodes (JObj kvs))) w) = Set_add_all [] (map Some xs)) \<and>
   (map_of kvs ''ips'' = Some (JStr cs) \<longrightarrow>
      bannedIPs (startup stamp (Holds (Encodes (JObj kvs))) w) =
        Set_add_all [] (map (\<lambda>c. Some (JStr [c])) cs))"
proof (intro conjI impI)
  show "(bannedIPs (startup stamp f w) = []) =
     (case f of Holds (Encodes v) \<Rightarrow> \<not> carries_ips v | _ \<Rightarrow> True)"
  proof (cases f)
    case (Holds t)
    show ?thesis
    proof (cases t)
      case Garbled
      with Holds show ?thesis
        by (simp add: startup_def loadBannedIPs_def loadBannedIPs_try_def initial_def)
    next
      case (Encodes v)
      have "(bannedIPs (startup stamp (Holds (Encodes v)) w) = []) = (\<not> carries_ips v)"
        by (cases v) (auto simp: startup_parsed split: option.splits json.splits)
      with Holds Encodes show ?thesis by simp
    qed
  qed (simp_all add: startup_def loadBannedIPs_def loadBannedIPs_try_def initial_def)
next
  assume "f \<noteq> Missing"
  then show "banned_ips_file (startup stamp f w) = f" "writes (startup stamp f w) = 0"
    "requestTracker (startup stamp f w) = []"
    by (auto simp: startup_def loadBannedIPs_def loadBannedIPs_try_def initial_def
        split: file_state.splits file_text.splits sum.splits)
qed (simp_all add: startup_parsed,
     simp_all add: startup_def loadBannedIPs_def loadBannedIPs_try_def initial_def
        saveBannedIPs_def data_def)

text \<open>
  A ban file that is not a ban record and yet gives a ban set that is not empty: with
  the string \<^verbatim>\<open>"aab"\<close> where the list of identities should be, the server starts with
  the identities \<^verbatim>\<open>"a"\<close> and \<^verbatim>\<open>"b"\<close> banned.
\<close>

theorem load_not_validated_counterexample:
  "bannedIPs (startup ''t'' (Holds (Encodes (JObj [(''ips'', JStr ''aab'')]))) True) =
     [Some (JStr ''a''), Some (JStr ''b'')]"
  by (simp add: startup_parsed)

theorem load_fails_safe_witness:
  "banned_ips_file (startup ''t'' Missing True) =
      Holds (Encodes (JObj [(''ips'', JArr []), (''lastUpdated'', JStr ''t''),
                            (''totalBanned'', JNum (Num 0))])) \<and>
   banned_ips_file (startup ''t'' (Holds Garbled) True) = Holds Garbled \<and>
   bannedIPs (startup ''t'' (Holds Garbled) True) = [] \<and>
   bannedIPs (startup ''t'' Unreadable True) = [] \<and>
   loadBannedIPs_try ''t'' (initial (Holds (Encodes (JObj [(''ips'', JNum (Num 1))]))) True) =
     Inl TypeError \<and>
   startup ''t'' (Holds (Encodes (JObj [(''ips'', JNum (Num 1))]))) True =
     initial (Holds (Encodes (JObj [(''ips'', JNum (Num 1))]))) True \<and>
   bannedIPs (startup ''t'' (Holds (Encodes JNull)) True) = [] \<and>
   bannedIPs (startup ''t'' (Holds (Encodes (JObj [(''totalBanned'', JNum (Num 3))]))) True) = [] \<and>
   bannedIPs (startup ''t'' (Holds (Encodes
       (JObj [(''ips'', JArr [JStr ''1.2.3.4'', JNull, JStr ''1.2.3.4''])]))) True) =
     [Some (JStr ''1.2.3.4''), Some JNull]"
proof -
  let ?n = "Holds (Encodes (JObj [(''ips'', JNum (Num 1))]))"
  let ?kvs = "[(''ips'', JArr [JStr ''1.2.3.4'', JNull, JStr ''1.2.3.4''])]"
  have 1: "banned_ips_file (startup ''t'' Missing True) =
      Holds (Encodes (JObj [(''ips'', JArr []), (''lastUpdated'', JStr ''t''),
                            (''totalBanned'', JNum (Num 0))]))"
    using load_fails_safe [where stamp = "''t''" and w = True,
        THEN conjunct2, THEN conjunct2, THEN conjunct1] by simp
  note g = load_fails_safe [where stamp = "''t''" and w = True and f = "Holds Garbled",
        THEN conjunct2, THEN conjunct2, THEN conjunct2]
  have 2: "banned_ips_file (startup ''t'' (Holds Garbled) True) = Holds Garbled"
    using g [THEN conjunct1] by simp
  have 3: "bannedIPs (startup ''t'' (Holds Garbled) True) = []"
    using g [THEN conjunct2, THEN conjunct1] by simp
  have 4: "bannedIPs (startup ''t'' Unreadable True) = []"
    using load_fails_safe [where stamp = "''t''" and w = True and f = Unreadable,
        THEN conjunct2, THEN conjunct2, THEN conjunct2, THEN conjunct2, THEN conjunct1]
    by simp
  have 5: "loadBannedIPs_try ''t'' (initial ?n True) = Inl TypeError"
    by (simp add: loadBannedIPs_try_def initial_def or_empty_def new_Set_def)
  have 6: "startup ''t'' ?n True = initial ?n True"
    using load_fails_safe [where stamp = "''t''" and w = True and f = ?n and e = TypeError,
        THEN conjunct2, THEN conjunct2, THEN conjunct2, THEN conjunct2, THEN conjunct2,
        THEN conjunct1] 5
    by simp
  have 7: "bannedIPs (startup ''t'' (Holds (Encodes JNull)) True) = []"
    using load_fails_safe [where stamp = "''t''" and w = True and f = "Holds (Encodes JNull)",
        THEN conjunct2, THEN conjunct2, THEN conjunct2, THEN conjunct2, THEN conjunct1]
    by simp
  have 8: "bannedIPs (startup ''t''
      (Holds (Encodes (JObj [(''totalBanned'', JNum (Num 3))]))) True) = []"
    using load_fails_safe [where stamp = "''t''" and w = True
        and f = "Holds (Encodes (JObj [(''totalBanned'', JNum (Num 3))]))",
        THEN conjunct2, THEN conjunct2, THEN conjunct2, THEN conjunct2, THEN conjunct1]
    by simp
  have 9: "bannedIPs (startup ''t'' (Holds (Encodes (JObj ?kvs))) True) =
     [Some (JStr ''1.2.3.4''), Some JNull]"
    using load_fails_safe [where stamp = "''t''" and w = True and kvs = ?kvs
        and xs = "[JStr ''1.2.3.4'', JNull, JStr ''1.2.3.4'']",
        THEN conjunct2, THEN conjunct2, THEN conjunct2, THEN conjunct2, THEN conjunct2,
        THEN conjunct2, THEN conjunct1]
    by simp
  from 1 2 3 4 5 6 7 8 9 show ?thesis by blast
qed

section \<open>The cleanup\<close>

text \<open>
  C9.  One pass of the cleanup at time \<open>now\<close> over a tracker (a map, so with distinct
  keys) removes the entry of identity \<open>i\<close> if and only if
  \<open>now - lastRequest > 300000\<close> and \<open>i\<close> is not banned, and leaves every other entry as it
  was.  The entry of a banned identity is kept whatever its age, and \<^verbatim>\<open>bannedIPs\<close> and
  the ban file are not touched.
\<close>

theorem cleanup_removes:
  "(distinct (map fst (requestTracker s)) \<longrightarrow>
      map_of (requestTracker (cleanup now s)) i =
        (case map_of (requestTracker s) i of
           None \<Rightarrow> None
         | Some t \<Rightarrow>
             if now - lastRequest t > 300000 \<and> \<not> Set_has i (bannedIPs s)
             then None else Some t)) \<and>
   (Set_has i (bannedIPs s) \<longrightarrow>
      map_of (requestTracker (cleanup now s)) i = map_of (requestTracker s) i) \<and>
   bannedIPs (cleanup now s) = bannedIPs s \<and>
   banned_ips_file (cleanup now s) = banned_ips_file s"
proof (intro conjI impI)
  assume d: "distinct (map fst (requestTracker s))"
  then have "\<forall>(k, v) \<in> set (requestTracker s).
      map_of (requestTracker s) k = Some v \<or> map_of (requestTracker s) k = None"
    by auto
  from cleanup_loop_entry [OF this, of now "bannedIPs s" i]
  show "map_of (requestTracker (cleanup now s)) i =
        (case map_of (requestTracker s) i of
           None \<Rightarrow> None
         | Some t \<Rightarrow>
             if now - lastRequest t > 300000 \<and> \<not> Set_has i (bannedIPs s)
             then None else Some t)"
    by (auto simp: cleanup_def split: option.splits dest: map_of_SomeD)
next
  assume "Set_has i (bannedIPs s)"
  then show "map_of (requestTracker (cleanup now s)) i = map_of (requestTracker s) i"
    by (simp add: cleanup_def cleanup_loop_banned)
qed simp_all

theorem cleanup_removes_witness:
  "distinct (map fst [(Some ''a'', \<lparr>count = 1, firstRequest = 0, lastRequest = 0\<rparr>),
                      (Some ''b'', \<lparr>count = 51, firstRequest = 0, lastRequest = 0\<rparr>),
                      (Some ''c'', \<lparr>count = 1, firstRequest = 0, lastRequest = 100000\<rparr>)]) \<and>
   Set_has (Some ''b'') [Some (JStr ''b'')] \<and>
   map (\<lambda>i. map_of (requestTracker (cleanup 400000
          \<lparr>requestTracker = [(Some ''a'', \<lparr>count = 1, firstRequest = 0, lastRequest = 0\<rparr>),
                             (Some ''b'', \<lparr>count = 51, firstRequest = 0, lastRequest = 0\<rparr>),
                             (Some ''c'', \<lparr>count = 1, firstRequest = 0, lastRequest = 100000\<rparr>)],
            bannedIPs = [Some (JStr ''b'')], banned_ips_file = Missing, writable = True,
            writes = 0\<rparr>)) i) [Some ''a'', Some ''b'', Some ''c''] =
     [None, Some \<lparr>count = 51, firstRequest = 0, lastRequest = 0\<rparr>,
      Some \<lparr>count = 1, firstRequest = 0, lastRequest = 100000\<rparr>]"
proof -
  let ?s = "\<lparr>requestTracker = [(Some ''a'', \<lparr>count = 1, firstRequest = 0, lastRequest = 0\<rparr>),
                             (Some ''b'', \<lparr>count = 51, firstRequest = 0, lastRequest = 0\<rparr>),
                             (Some ''c'', \<lparr>count = 1, firstRequest = 0, lastRequest = 100000\<rparr>)],
            bannedIPs = [Some (JStr ''b'')], banned_ips_file = Missing, writable = True,
            writes = 0\<rparr>"
  have d: "distinct (map fst (requestTracker ?s))" by simp
  have b: "Set_has (Some ''b'') (bannedIPs ?s)" by (simp add: Set_has_def ident_def)
  have a: "map_of (requestTracker (cleanup 400000 ?s)) (Some ''a'') = None"
    using cleanup_removes [where s = ?s and now = 400000 and i = "Some ''a''", THEN conjunct1] d
    by (simp add: Set_has_def ident_def)
  have c: "map_of (requestTracker (cleanup 400000 ?s)) (Some ''c'') =
      Some \<lparr>count = 1, firstRequest = 0, lastRequest = 100000\<rparr>"
    using cleanup_removes [where s = ?s and now = 400000 and i = "Some ''c''", THEN conjunct1] d
    by (simp add: Set_has_def ident_def)
  have b': "map_of (requestTracker (cleanup 400000 ?s)) (Some ''b'') =
      Some \<lparr>count = 51, firstRequest = 0, lastRequest = 0\<rparr>"
    using cleanup_removes [where s = ?s and now = 400000 and i = "Some ''b''",
        THEN conjunct2, THEN conjunct1] b
    by simp
  from d b a b' c show ?thesis by simp
qed

section \<open>Unban\<close>

text \<open>
  C10.  The handler of the unban route changes \<^verbatim>\<open>bannedIPs\<close> and the ban file only; the
  tracker is as before, so the entry of \<open>x\<close> keeps its count, \<open>firstRequest\<close> and
  \<open>lastRequest\<close>.  Hence, if \<open>x\<close> is unbanned while its entry has a count of 50 or more,
  the next request of \<open>x\<close> within \<open>TIME_WINDOW\<close> of that entry's \<open>firstRequest\<close>
  increments the count once, exceeds the limit, and is answered by banning \<open>x\<close> again
  and destroying the socket.
\<close>

theorem unban_keeps_entry:
  "requestTracker (snd (unban stamp x s)) = requestTracker s \<and>
   writable (snd (unban stamp x s)) = writable s \<and>
   (Set_has (Some x) (bannedIPs s) \<and> getRealIP req = Some x \<and>
    map_of (requestTracker s) (Some x) = Some t \<and> count t \<ge> 50 \<and>
    now - firstRequest t \<le> TIME_WINDOW \<longrightarrow>
      (case unban stamp x s of (success, s1) \<Rightarrow>
         success \<and> \<not> Set_has (Some x) (bannedIPs s1) \<and>
         map_of (requestTracker s1) (Some x) = Some t \<and>
         (case middleware req now stamp' s1 of (out, s2) \<Rightarrow>
            out = Banned_now \<and> Set_has (Some x) (bannedIPs s2) \<and>
            map_of (requestTracker s2) (Some x) =
              Some \<lparr>count = count t + 1, firstRequest = firstRequest t, lastRequest = now\<rparr>)))"
proof (intro conjI impI)
  show "requestTracker (snd (unban stamp x s)) = requestTracker s" by simp
  show "writable (snd (unban stamp x s)) = writable s" by (simp add: unban_def)
next
  assume a: "Set_has (Some x) (bannedIPs s) \<and> getRealIP req = Some x \<and>
    map_of (requestTracker s) (Some x) = Some t \<and> count t \<ge> 50 \<and>
    now - firstRequest t \<le> TIME_WINDOW"
  let ?s1 = "saveBannedIPs stamp (s\<lparr>bannedIPs := Set_delete (Some x) (bannedIPs s)\<rparr>)"
  from a have u: "unban stamp x s = (True, ?s1)" by (simp add: unban_banned)
  have nb: "\<not> Set_has (getRealIP req) (bannedIPs ?s1)" using a by simp
  have e: "map_of (requestTracker ?s1) (getRealIP req) = Some t" using a by simp
  have "count (track now t) > REQUEST_LIMIT"
    using a by (simp add: track_in_window REQUEST_LIMIT_def)
  with middleware_known [OF nb e, of now stamp']
  have m: "middleware req now stamp' ?s1 =
      (Banned_now, banIP stamp' (getRealIP req)
         (?s1\<lparr>requestTracker := AList.update (getRealIP req) (track now t) (requestTracker ?s1)\<rparr>))"
    by simp
  from a u m show "case unban stamp x s of (success, s1) \<Rightarrow>
         success \<and> \<not> Set_has (Some x) (bannedIPs s1) \<and>
         map_of (requestTracker s1) (Some x) = Some t \<and>
         (case middleware req now stamp' s1 of (out, s2) \<Rightarrow>
            out = Banned_now \<and> Set_has (Some x) (bannedIPs s2) \<and>
            map_of (requestTracker s2) (Some x) =
              Some \<lparr>count = count t + 1, firstRequest = firstRequest t, lastRequest = now\<rparr>)"
    by (simp add: track_in_window update_conv')
qed

theorem unban_keeps_entry_witness:
  "(case unban ''u'' ''B''
          \<lparr>requestTracker = [(Some ''B'', \<lparr>count = 51, firstRequest = 0, lastRequest = 50\<rparr>)],
            bannedIPs = [Some (JStr ''B'')], banned_ips_file = Missing, writable = True,
            writes = 0\<rparr>
    of (success, s1) \<Rightarrow>
      success \<and> bannedIPs s1 = [] \<and>
      requestTracker s1 = [(Some ''B'', \<lparr>count = 51, firstRequest = 0, lastRequest = 50\<rparr>)] \<and>
      (case middleware \<lparr>headers = Map.empty, socket_remoteAddress = Some ''B'',
                        connection_remoteAddress = Some ''B''\<rparr> 60000 ''v'' s1
       of (out, s2) \<Rightarrow>
         out = Banned_now \<and> Set_has (Some ''B'') (bannedIPs s2) \<and>
         map_of (requestTracker s2) (Some ''B'') =
           Some \<lparr>count = 52, firstRequest = 0, lastRequest = 60000\<rparr>))"
proof -
  let ?r = "\<lparr>headers = Map.empty, socket_remoteAddress = Some ''B'',
             connection_remoteAddress = Some ''B''\<rparr>"
  let ?t = "\<lparr>count = 51, firstRequest = 0, lastRequest = 50\<rparr>"
  let ?s = "\<lparr>requestTracker = [(Some ''B'', ?t)],
            bannedIPs = [Some (JStr ''B'')], banned_ips_file = Missing, writable = True,
            writes = 0\<rparr>"
  have g: "getRealIP ?r = Some ''B''" by (simp add: getRealIP_def or_str_def)
  have h: "Set_has (Some ''B'') (bannedIPs ?s) \<and> getRealIP ?r = Some ''B'' \<and>
    map_of (requestTracker ?s) (Some ''B'') = Some ?t \<and> count ?t \<ge> 50 \<and>
    60000 - firstRequest ?t \<le> TIME_WINDOW"
    using g by (simp add: Set_has_def ident_def TIME_WINDOW_def)
  obtain success s1 where u: "unban ''u'' ''B'' ?s = (success, s1)" by (cases "unban ''u'' ''B'' ?s")
  obtain out s2 where m: "middleware ?r 60000 ''v'' s1 = (out, s2)"
    by (cases "middleware ?r 60000 ''v'' s1")
  from unban_keeps_entry [where x = "''B''" and s = ?s and req = ?r and t = ?t and now = 60000
      and stamp = "''u''" and stamp' = "''v''", THEN conjunct2, THEN conjunct2] h u m
  have c: "success" "out = Banned_now" "Set_has (Some ''B'') (bannedIPs s2)"
    "map_of (requestTracker s2) (Some ''B'') =
       Some \<lparr>count = 52, firstRequest = 0, lastRequest = 60000\<rparr>"
    by simp_all
  from u have "bannedIPs s1 = []" "requestTracker s1 = [(Some ''B'', ?t)]"
    by (auto simp: unban_def Set_has_def Set_delete_def ident_def)
  with u m c show ?thesis by simp
qed

end
